theory Spec2Isabelle
  imports Main "HOL-Library.AList"
begin

section \<open>JavaScript strings and arrays\<close>

text \<open>
  A JavaScript string is a sequence of code units. It is modelled as a \<^typ>\<open>string\<close>,
  one \<^typ>\<open>char\<close> per code unit, so the model covers the strings whose code units lie
  below 256. The helpers below follow the ECMAScript methods the plugin calls, with what
  they return outside the string's range written out.
\<close>

definition BACKSLASH :: char where
  "BACKSLASH = CHR 0x5C"

definition NEWLINE :: char where
  "NEWLINE = CHR 0x0A"

definition CARRIAGE_RETURN :: char where
  "CARRIAGE_RETURN = CHR 0x0D"

definition TAB :: char where
  "TAB = CHR 0x09"

text \<open>\<open>s.charAt(i)\<close>: the one-character string at \<open>i\<close>, the empty string out of range.\<close>

definition charAt :: "string \<Rightarrow> int \<Rightarrow> string" where
  "charAt s i = (if 0 \<le> i \<and> i < int (length s) then [s ! nat i] else [])"

text \<open>\<open>s.substring(a, b)\<close>: both arguments clamped to the string, swapped when \<open>a > b\<close>.\<close>

definition substring :: "string \<Rightarrow> int \<Rightarrow> int \<Rightarrow> string" where
  "substring s a b =
     (let n = int (length s);
          a' = max 0 (min a n);
          b' = max 0 (min b n);
          lo = min a' b';
          hi = max a' b'
      in take (nat (hi - lo)) (drop (nat lo) s))"

text \<open>\<open>s.substring(a)\<close>: to the end of the string.\<close>

definition substring_from :: "string \<Rightarrow> int \<Rightarrow> string" where
  "substring_from s a = substring s a (int (length s))"

text \<open>
  \<open>xs.indexOf(x)\<close>, for an array and for a string searched for one character: the first
  index that holds \<open>x\<close>, or \<open>-1\<close>.
\<close>

primrec indexOf :: "'a list \<Rightarrow> 'a \<Rightarrow> int" where
  "indexOf [] x = -1"
| "indexOf (y # ys) x =
     (if y = x then 0 else (let r = indexOf ys x in if r < 0 then -1 else r + 1))"

definition startsWith :: "string \<Rightarrow> string \<Rightarrow> bool" where
  "startsWith s p = (take (length p) s = p)"

definition endsWith :: "string \<Rightarrow> string \<Rightarrow> bool" where
  "endsWith s p = (length p \<le> length s \<and> drop (length s - length p) s = p)"

text \<open>
  \<open>s.trim()\<close> removes white space and line terminators from both ends. Below 256 these
  are TAB, LF, VT, FF, CR, SPACE and the no-break space.
\<close>

definition is_whitespace :: "char \<Rightarrow> bool" where
  "is_whitespace c =
     (c \<in> set [CHR 0x09, CHR 0x0A, CHR 0x0B, CHR 0x0C, CHR 0x0D, CHR 0x20, CHR 0xA0])"

definition trim :: "string \<Rightarrow> string" where
  "trim s = rev (dropWhile is_whitespace (rev (dropWhile is_whitespace s)))"

text \<open>\<open>s.split(c)\<close> for a one-character separator: never an empty array.\<close>

fun split_acc :: "char \<Rightarrow> string \<Rightarrow> string \<Rightarrow> string list" where
  "split_acc c cur [] = [rev cur]"
| "split_acc c cur (x # xs) =
     (if x = c then rev cur # split_acc c [] xs else split_acc c (x # cur) xs)"

definition split :: "string \<Rightarrow> char \<Rightarrow> string list" where
  "split s c = split_acc c [] s"

text \<open>\<open>xs.join(sep)\<close> on an array of strings.\<close>

fun join :: "string list \<Rightarrow> string \<Rightarrow> string" where
  "join [] sep = []"
| "join [x] sep = x"
| "join (x # y # ys) sep = x @ sep @ join (y # ys) sep"

text \<open>
  \<open>xs.slice(start, end)\<close> and \<open>xs.slice(start)\<close>: a negative index counts from the end,
  and both are clamped to the array.
\<close>

definition slice_index :: "nat \<Rightarrow> int \<Rightarrow> nat" where
  "slice_index n i = (if i < 0 then nat (max (int n + i) 0) else min (nat i) n)"

definition slice :: "'a list \<Rightarrow> int \<Rightarrow> int \<Rightarrow> 'a list" where
  "slice xs start end =
     (let lo = slice_index (length xs) start; hi = slice_index (length xs) end
      in take (hi - lo) (drop lo xs))"

definition slice_from :: "'a list \<Rightarrow> int \<Rightarrow> 'a list" where
  "slice_from xs start = slice xs start (int (length xs))"

text \<open>\<open>xs[i]\<close>: \<open>undefined\<close> (here \<open>None\<close>) out of range.\<close>

definition at_index :: "'a list \<Rightarrow> int \<Rightarrow> 'a option" where
  "at_index xs i = (if 0 \<le> i \<and> i < int (length xs) then Some (xs ! nat i) else None)"

text \<open>
  ASCII lower case, for the regular expressions with the \<open>i\<close> flag: without the \<open>u\<close>
  flag a code unit of 128 or more never matches an ASCII letter.
\<close>

definition to_lower :: "char \<Rightarrow> char" where
  "to_lower c =
     (let n = (of_char c :: nat)
      in if 65 \<le> n \<and> n \<le> 90 then char_of (n + 32) else c)"


section \<open>Path normalisation\<close>

text \<open>\<open>EXTENDED_PATH_REGEX = /^\\\\\?\\/\<close>: the string starts with \<open>\\?\\<close>.\<close>

definition EXTENDED_PATH_REGEX_test :: "string \<Rightarrow> bool" where
  "EXTENDED_PATH_REGEX_test s =
     startsWith s [BACKSLASH, BACKSLASH, CHR ''?'', BACKSLASH]"

text \<open>\<open>NON_ASCII_REGEX = /[^\x00-\x80]+/\<close>: some code unit lies above 0x80.\<close>

definition NON_ASCII_REGEX_test :: "string \<Rightarrow> bool" where
  "NON_ASCII_REGEX_test s = list_ex (\<lambda>c. (of_char c :: nat) > 0x80) s"

text \<open>\<open>str.replace(SLASH_REGEX, '/')\<close> with \<open>SLASH_REGEX = /\\/g\<close>.\<close>

definition replace_SLASH_REGEX :: "string \<Rightarrow> string" where
  "replace_SLASH_REGEX s = map (\<lambda>c. if c = BACKSLASH then CHR ''/'' else c) s"

text \<open>
  \<open>normalizePath\<close>. The declared parameter type is \<open>string\<close>, so the \<open>typeof\<close> guard that
  throws on any other value has no branch here.
\<close>

definition normalizePath :: "string \<Rightarrow> string" where
  "normalizePath str0 =
     (let str = trim str0 in
      if EXTENDED_PATH_REGEX_test str \<or> NON_ASCII_REGEX_test str then str
      else
        (let str = replace_SLASH_REGEX str in
         if charAt str (int (length str) - 1) = ''/'' then
           (let colonIndex = indexOf str (CHR '':'') in
            if colonIndex > -1 then
              (if colonIndex < int (length str) - 2
               then substring str 0 (int (length str) - 1)
               else str)
            else if length str > 1 then substring str 0 (int (length str) - 1)
            else str)
         else str))"


section \<open>Module specifiers\<close>

text \<open>The object \<open>m\<close> of \<open>getModuleId\<close>; both fields start as \<open>null\<close> (\<open>None\<close>).\<close>

record ModuleReference =
  moduleId :: "string option"
  filePath :: "string option"

definition getModuleId :: "string \<Rightarrow> ModuleReference" where
  "getModuleId orgImport0 =
     (let orgImport = (if startsWith orgImport0 ''~'' then substring_from orgImport0 1
                       else orgImport0);
          splt = split orgImport (CHR ''/'');
          m = \<lparr>moduleId = None, filePath = None\<rparr>
      in if startsWith orgImport ''@'' \<and> length splt > 1 then
           m\<lparr>moduleId := Some (join (slice splt 0 2) ''/''),
             filePath := Some (join (slice_from splt 2) ''/'')\<rparr>
         else
           m\<lparr>moduleId := at_index splt 0,
             filePath := Some (join (slice_from splt 1) ''/'')\<rparr>)"

text \<open>
  The vocabulary of the claims about \<open>normalizePath\<close>: an ASCII character, and a colon
  within two characters of the end of a string; \<open>first_colon_near_end\<close> looks at the
  first colon only, \<open>some_colon_near_end\<close> at any colon.
\<close>

definition is_ascii :: "char \<Rightarrow> bool" where
  "is_ascii c = ((of_char c :: nat) < 128)"

definition first_colon_near_end :: "string \<Rightarrow> bool" where
  "first_colon_near_end s =
     (let i = indexOf s (CHR '':'') in i > -1 \<and> i \<ge> int (length s) - 2)"

definition some_colon_near_end :: "string \<Rightarrow> bool" where
  "some_colon_near_end s = (CHR '':'' \<in> set (drop (length s - 2) s))"


section \<open>Diagnostics\<close>

text \<open>
  The error of the compiler (\<open>LegacyException\<close>). \<open>None\<close> is a field that is absent or
  not of the type the code tests for. The message is kept as a list of code units, since
  the marker that \<open>formatMessage\<close> splits at, U+2577, lies beyond \<^typ>\<open>char\<close>.
\<close>

record LegacyException =
  status :: "int option"
  message :: "nat list option"
  file_exn :: "string option"
  line :: "int option"
  column :: "int option"

text \<open>
  One line of the excerpt. \<open>text_line\<close> is \<open>None\<close> when the array of source lines has no
  entry at the index, \<open>errorCharStart\<close> is \<open>None\<close> when the error has no column.
\<close>

record SourceLine =
  lineIndex :: int
  lineNumber :: int
  text_line :: "string option"
  errorCharStart :: "int option"
  errorLength :: int

record Diagnostic =
  level :: string
  type :: string
  language :: string
  header :: string
  code :: string
  relFilePath :: "string option"
  absFilePath :: "string option"
  messageText :: "nat list"
  lineNumber_diag :: "int option"
  columnNumber :: "int option"
  lines :: "SourceLine list"

text \<open>
  The host's module functions under \<open>context.sys\<close>: \<open>normalizePath\<close> when the host has
  one, and whether it has \<open>resolveModuleId\<close>.
\<close>

record Sys =
  sys_normalizePath :: "(string \<Rightarrow> string) option"
  has_resolveModuleId :: bool

text \<open>
  The plugin context: \<open>config.rootDir\<close>, \<open>fs.readFileSync\<close> (\<open>None\<close> when the read
  throws), the collection of diagnostics and \<open>sys\<close>.
\<close>

record PluginCtx =
  rootDir :: string
  readFileSync :: "string \<Rightarrow> string option"
  diagnostics :: "Diagnostic list"
  sys :: "Sys option"

text \<open>
  \<open>String(input)\<close> for an integer: its decimal digits, most significant first, after a
  minus sign when it is negative.
\<close>

definition digit_char :: "nat \<Rightarrow> char" where
  "digit_char d = char_of (d + 48)"

fun decimal_digits :: "nat \<Rightarrow> string \<Rightarrow> string" where
  "decimal_digits n acc =
     (if n < 10 then digit_char n # acc
      else decimal_digits (n div 10) (digit_char (n mod 10) # acc))"

definition String_of_number :: "int \<Rightarrow> string" where
  "String_of_number i =
     (if 0 \<le> i then decimal_digits (nat i) []
      else CHR ''-'' # decimal_digits (nat (- i)) [])"

definition formatCode :: "int option \<Rightarrow> string" where
  "formatCode input = (case input of None \<Rightarrow> [] | Some n \<Rightarrow> String_of_number n)"

text \<open>\<open>input.split(marker)[0]\<close>: the message up to the first U+2577.\<close>

definition formatMessage :: "nat list option \<Rightarrow> nat list" where
  "formatMessage input =
     (case input of None \<Rightarrow> [] | Some s \<Rightarrow> takeWhile (\<lambda>u. u \<noteq> 0x2577) s)"

text \<open>\<open>s.replace(pat, rep)\<close> for a string pattern: the first occurrence only.\<close>

fun replace_first :: "string \<Rightarrow> string \<Rightarrow> string \<Rightarrow> string" where
  "replace_first [] pat rep = (if pat = [] then rep else [])"
| "replace_first (x # xs) pat rep =
     (if startsWith (x # xs) pat then rep @ drop (length pat) (x # xs)
      else x # replace_first xs pat rep)"

definition formatFileName :: "string \<Rightarrow> string \<Rightarrow> string" where
  "formatFileName root fileName0 =
     (if root = [] \<or> fileName0 = [] then []
      else
        (let fileName = replace_first fileName0 root [];
             fileName = (if charAt fileName 0 = ''/'' \<or> charAt fileName 0 = [BACKSLASH]
                         then substring_from fileName 1 else fileName);
             fileName = (if length fileName > 80
                         then ''...'' @ substring_from fileName (int (length fileName) - 80)
                         else fileName)
         in fileName))"

definition STOP_CHARS :: "string list" where
  "STOP_CHARS =
     [[], [NEWLINE], [CARRIAGE_RETURN], [TAB], '' '', '':'', '';'', '','', ''{'', ''}'',
      ''.'', ''#'', ''@'', ''!'', ''['', '']'', ''('', '')'', ''&'', ''+'', ''~'', ''^'',
      ''*'', ''$'']"

text \<open>\<open>/(\.scss)$/i\<close> and \<open>/(\.sass)$/i\<close>.\<close>

definition test_scss :: "string \<Rightarrow> bool" where
  "test_scss s = endsWith (map to_lower s) ''.scss''"

definition test_sass :: "string \<Rightarrow> bool" where
  "test_sass s = endsWith (map to_lower s) ''.sass''"

text \<open>\<open>sourceText.split(/\r?\n/)\<close>.\<close>

fun split_lines_acc :: "string \<Rightarrow> string \<Rightarrow> string list" where
  "split_lines_acc cur [] = [rev cur]"
| "split_lines_acc cur [x] = (if x = NEWLINE then [rev cur, []] else [rev (x # cur)])"
| "split_lines_acc cur (x # y # ys) =
     (if x = NEWLINE then rev cur # split_lines_acc [] (y # ys)
      else if x = CARRIAGE_RETURN \<and> y = NEWLINE then rev cur # split_lines_acc [] ys
      else split_lines_acc (x # cur) (y # ys))"

definition split_lines :: "string \<Rightarrow> string list" where
  "split_lines s = split_lines_acc [] s"

text \<open>
  The first loop of \<open>loadDiagnostic\<close>: \<open>i\<close> runs down from the column while the character
  at \<open>i\<close> is no stop character, and \<open>errorCharStart\<close> follows it.
\<close>

function scan_backward :: "string \<Rightarrow> int \<Rightarrow> int \<Rightarrow> int" where
  "scan_backward txt i start =
     (if i \<ge> 0 then
        (if indexOf STOP_CHARS (charAt txt i) > -1 then start
         else scan_backward txt (i - 1) i)
      else start)"
  by pat_completeness auto
termination
  by (relation "measure (\<lambda>(txt, i, start). nat (i + 1))") auto

text \<open>The second loop: \<open>j\<close> runs up from the start, counting into \<open>errorLength\<close>.\<close>

function scan_forward :: "string \<Rightarrow> int \<Rightarrow> int \<Rightarrow> int" where
  "scan_forward txt j len =
     (if j \<le> int (length txt) then
        (if indexOf STOP_CHARS (charAt txt j) > -1 then len
         else scan_forward txt (j + 1) (len + 1))
      else len)"
  by pat_completeness auto
termination
  by (relation "measure (\<lambda>(txt, j, len). nat (int (length txt) + 1 - j))") auto

declare scan_backward.simps [simp del]
declare scan_forward.simps [simp del]

text \<open>
  The two loops and the zero-length fallback, on the error line. With no column both
  loops are skipped (every comparison with \<open>undefined\<close> is false).
\<close>

definition find_span :: "SourceLine \<Rightarrow> SourceLine" where
  "find_span errorLine =
     (case errorCharStart errorLine of
        None \<Rightarrow> errorLine
      | Some c \<Rightarrow>
          (let txt = (case text_line errorLine of Some t \<Rightarrow> t | None \<Rightarrow> []);
               start = scan_backward txt c c;
               len = scan_forward txt start (errorLength errorLine)
           in if len = 0 \<and> start > 0
              then errorLine\<lparr>errorCharStart := Some (start - 1), errorLength := 1\<rparr>
              else errorLine\<lparr>errorCharStart := Some start, errorLength := len\<rparr>))"

text \<open>The body of the \<open>try\<close> block once the file has been read.\<close>

definition context_lines ::
  "string list \<Rightarrow> int \<Rightarrow> int \<Rightarrow> int option \<Rightarrow> SourceLine list" where
  "context_lines srcLines errorLineIndex errorLineNumber col =
     (let errorLine = find_span
            \<lparr>lineIndex = errorLineIndex,
             lineNumber = errorLineNumber,
             text_line = Some (case at_index srcLines errorLineIndex of
                                 Some t \<Rightarrow> t | None \<Rightarrow> []),
             errorCharStart = col,
             errorLength = 0\<rparr>;
          lines0 = [errorLine];
          lines1 = (if lineIndex errorLine > 0 then
                      \<lparr>lineIndex = lineIndex errorLine - 1,
                       lineNumber = lineNumber errorLine - 1,
                       text_line = at_index srcLines (lineIndex errorLine - 1),
                       errorCharStart = Some (-1),
                       errorLength = -1\<rparr> # lines0
                    else lines0);
          lines2 = (if lineIndex errorLine + 1 < int (length srcLines) then
                      lines1 @
                      [\<lparr>lineIndex = lineIndex errorLine + 1,
                        lineNumber = lineNumber errorLine + 1,
                        text_line = at_index srcLines (lineIndex errorLine + 1),
                        errorCharStart = Some (-1),
                        errorLength = -1\<rparr>]
                    else lines1)
      in lines2)"

text \<open>
  The branch of \<open>loadDiagnostic\<close> taken when a file path is known. A read that throws is
  caught: the diagnostic keeps its empty \<open>lines\<close>.
\<close>

definition with_file_context ::
  "PluginCtx \<Rightarrow> LegacyException \<Rightarrow> string \<Rightarrow> Diagnostic \<Rightarrow> Diagnostic" where
  "with_file_context ctx sassError path diagnostic0 =
     (let diagnostic = diagnostic0
            \<lparr>language := (if test_scss path then ''scss'' else ''sass''),
             absFilePath := Some path,
             relFilePath := Some (formatFileName (rootDir ctx) path),
             lineNumber_diag := line sassError,
             columnNumber := column sassError\<rparr>
      in case line sassError of
           None \<Rightarrow> diagnostic
         | Some errorLineNumber \<Rightarrow>
             (let errorLineIndex = errorLineNumber - 1 in
              if errorLineIndex > -1 then
                (case readFileSync ctx path of
                   None \<Rightarrow> diagnostic
                 | Some sourceText \<Rightarrow>
                     diagnostic\<lparr>lines := context_lines (split_lines sourceText)
                                   errorLineIndex errorLineNumber (column sassError)\<rparr>)
              else diagnostic))"

text \<open>
  The file path \<open>loadDiagnostic\<close> works with: the error's own \<open>file\<close> when that is a
  string other than the placeholder \<open>stdin\<close>, the \<open>filePath\<close> argument otherwise.
\<close>

definition effective_path :: "LegacyException \<Rightarrow> string option \<Rightarrow> string option" where
  "effective_path sassError filePath0 =
     (case file_exn sassError of
        Some f \<Rightarrow> if f \<noteq> ''stdin'' then Some f else filePath0
      | None \<Rightarrow> filePath0)"

text \<open>
  \<open>loadDiagnostic\<close>: the result and the context after the call. An absent \<open>sassError\<close>
  or \<open>context\<close> is \<open>None\<close>; so is a \<open>filePath\<close> that is no string.
\<close>

definition loadDiagnostic ::
  "PluginCtx option \<Rightarrow> LegacyException option \<Rightarrow> string option
     \<Rightarrow> Diagnostic option \<times> PluginCtx option" where
  "loadDiagnostic context sassError filePath0 =
     (case sassError of
        None \<Rightarrow> (None, context)
      | Some err \<Rightarrow>
          (case context of
             None \<Rightarrow> (None, context)
           | Some ctx \<Rightarrow>
               (let diagnostic0 =
                      \<lparr>level = ''error'', type = ''css'', language = ''scss'',
                       header = ''sass error'', code = formatCode (status err),
                       relFilePath = None, absFilePath = None,
                       messageText = formatMessage (message err),
                       lineNumber_diag = None, columnNumber = None, lines = []\<rparr>;
                    path = effective_path err filePath0;
                    diagnostic = (case path of
                                    None \<Rightarrow> diagnostic0
                                  | Some fp \<Rightarrow> with_file_context ctx err fp diagnostic0)
                in (Some diagnostic,
                    Some (ctx\<lparr>diagnostics := diagnostics ctx @ [diagnostic]\<rparr>)))))"

text \<open>
  The entries of \<open>lines\<close> by their role: the annotated entry for the error line, the
  entry for a neighbouring line, and the sentinel span \<open>(-1, -1)\<close> the neighbours carry.
\<close>

definition error_entry :: "string list \<Rightarrow> int \<Rightarrow> int \<Rightarrow> int option \<Rightarrow> SourceLine" where
  "error_entry srcLines idx num col =
     find_span \<lparr>lineIndex = idx, lineNumber = num,
                text_line = Some (case at_index srcLines idx of Some t \<Rightarrow> t | None \<Rightarrow> []),
                errorCharStart = col, errorLength = 0\<rparr>"

definition context_entry :: "string list \<Rightarrow> int \<Rightarrow> int \<Rightarrow> SourceLine" where
  "context_entry srcLines idx num =
     \<lparr>lineIndex = idx, lineNumber = num, text_line = at_index srcLines idx,
      errorCharStart = Some (-1), errorLength = -1\<rparr>"

definition sentinel_span :: "SourceLine \<Rightarrow> bool" where
  "sentinel_span l = (errorCharStart l = Some (-1) \<and> errorLength l = -1)"

text \<open>
  A concrete run: a three-line style sheet, a context that serves it at one path only,
  and an error reported at line 2, column 10, with the diagnostics it leads to.
\<close>

definition example_source :: string where
  "example_source = ''a {'' @ [NEWLINE] @ ''  color: red;'' @ [NEWLINE] @ ''}''"

definition example_ctx :: PluginCtx where
  "example_ctx =
     \<lparr>rootDir = ''/proj'',
      readFileSync = (\<lambda>p. if p = ''/proj/src/a.scss'' then Some example_source else None),
      diagnostics = [], sys = None\<rparr>"

definition example_error :: LegacyException where
  "example_error =
     \<lparr>status = Some 1, message = Some [], file_exn = Some ''stdin'',
      line = Some 2, column = Some 10\<rparr>"

definition example_diagnostic :: Diagnostic where
  "example_diagnostic =
     \<lparr>level = ''error'', type = ''css'', language = ''scss'', header = ''sass error'',
      code = ''1'', relFilePath = Some ''src/a.scss'', absFilePath = Some ''/proj/src/a.scss'',
      messageText = [], lineNumber_diag = Some 2, columnNumber = Some 10,
      lines = [\<lparr>lineIndex = 0, lineNumber = 1, text_line = Some ''a {'',
                 errorCharStart = Some (-1), errorLength = -1\<rparr>,
               \<lparr>lineIndex = 1, lineNumber = 2, text_line = Some ''  color: red;'',
                 errorCharStart = Some 9, errorLength = 3\<rparr>,
               \<lparr>lineIndex = 2, lineNumber = 3, text_line = Some ''}'',
                 errorCharStart = Some (-1), errorLength = -1\<rparr>]\<rparr>"

definition example_plain_diagnostic :: Diagnostic where
  "example_plain_diagnostic =
     \<lparr>level = ''error'', type = ''css'', language = ''scss'', header = ''sass error'',
      code = ''1'', relFilePath = None, absFilePath = None, messageText = [],
      lineNumber_diag = None, columnNumber = None, lines = []\<rparr>"

section \<open>Render options\<close>

text \<open>
  \<open>getRenderOptions\<close> works on objects and arrays that the caller still holds, so they
  live in a store: an address names a cell, a cell is an array or an object (a map from
  property names to values), and a value is a primitive, a function or a reference to a
  cell. A new cell gets the next free address.
\<close>

type_synonym addr = nat

datatype func = UserFunction nat | ModuleImporter

datatype val =
    Undefined
  | Null
  | Boolean bool
  | Number int
  | Str string
  | Function func
  | Ref addr

datatype cell = Array "val list" | Object "string \<rightharpoonup> val"

type_synonym heap = "cell list"

datatype error = TypeError

definition cell_at :: "heap \<Rightarrow> addr \<Rightarrow> cell option" where
  "cell_at h a = (if a < length h then Some (h ! a) else None)"

definition alloc :: "heap \<Rightarrow> cell \<Rightarrow> addr \<times> heap" where
  "alloc h c = (length h, h @ [c])"

text \<open>The properties of the object at an address; none when no object lives there.\<close>

definition props :: "heap \<Rightarrow> addr \<Rightarrow> (string \<rightharpoonup> val)" where
  "props h a = (case cell_at h a of Some (Object m) \<Rightarrow> m | _ \<Rightarrow> Map.empty)"

text \<open>\<open>o.k\<close>: \<open>undefined\<close> when the object has no such property.\<close>

definition get_prop :: "heap \<Rightarrow> addr \<Rightarrow> string \<Rightarrow> val" where
  "get_prop h a k = (case props h a k of Some v \<Rightarrow> v | None \<Rightarrow> Undefined)"

text \<open>\<open>o.k = v\<close> and \<open>delete o.k\<close>, on the object at an address.\<close>

definition set_prop :: "heap \<Rightarrow> addr \<Rightarrow> string \<Rightarrow> val \<Rightarrow> heap" where
  "set_prop h a k v =
     (case cell_at h a of Some (Object m) \<Rightarrow> h[a := Object (m(k \<mapsto> v))] | _ \<Rightarrow> h)"

definition delete_prop :: "heap \<Rightarrow> addr \<Rightarrow> string \<Rightarrow> heap" where
  "delete_prop h a k =
     (case cell_at h a of Some (Object m) \<Rightarrow> h[a := Object (m(k := None))] | _ \<Rightarrow> h)"

text \<open>\<open>Array.isArray(v)\<close>, the elements of the array a value refers to, and \<open>push\<close>.\<close>

definition isArray :: "heap \<Rightarrow> val \<Rightarrow> bool" where
  "isArray h v =
     (case v of
        Ref a \<Rightarrow> (case cell_at h a of Some (Array xs) \<Rightarrow> True | _ \<Rightarrow> False)
      | _ \<Rightarrow> False)"

definition elems :: "heap \<Rightarrow> val \<Rightarrow> val list" where
  "elems h v =
     (case v of
        Ref a \<Rightarrow> (case cell_at h a of Some (Array xs) \<Rightarrow> xs | _ \<Rightarrow> [])
      | _ \<Rightarrow> [])"

definition array_push :: "heap \<Rightarrow> val \<Rightarrow> val list \<Rightarrow> heap" where
  "array_push h v xs =
     (case v of
        Ref a \<Rightarrow> (case cell_at h a of Some (Array ys) \<Rightarrow> h[a := Array (ys @ xs)] | _ \<Rightarrow> h)
      | _ \<Rightarrow> h)"

definition truthy :: "val \<Rightarrow> bool" where
  "truthy v =
     (case v of
        Undefined \<Rightarrow> False
      | Null \<Rightarrow> False
      | Boolean b \<Rightarrow> b
      | Number n \<Rightarrow> n \<noteq> 0
      | Str s \<Rightarrow> s \<noteq> []
      | Function f \<Rightarrow> True
      | Ref a \<Rightarrow> True)"

text \<open>
  The functions of \<open>node:path\<close> that the plugin calls. They belong to the platform, so the
  model takes them as a parameter; each throws a \<open>TypeError\<close> on an argument that is no
  string, which the callers below write out.
\<close>

record path_api =
  dirname :: "string \<Rightarrow> string"
  isAbsolute :: "string \<Rightarrow> bool"
  resolve :: "string \<Rightarrow> string \<Rightarrow> string"
  join_paths :: "string \<Rightarrow> string \<Rightarrow> string"

text \<open>
  The callback of \<open>renderOpts.includePaths.map\<close>, over the whole array: an absolute path
  stays, a relative one is resolved against the root directory.
\<close>

fun resolve_includePaths :: "path_api \<Rightarrow> string \<Rightarrow> val list \<Rightarrow> error + val list" where
  "resolve_includePaths P root [] = Inr []"
| "resolve_includePaths P root (Str includePath # vs) =
     (case resolve_includePaths P root vs of
        Inl e \<Rightarrow> Inl e
      | Inr rs \<Rightarrow>
          Inr (Str (if isAbsolute P includePath then includePath
                    else resolve P root includePath) # rs))"
| "resolve_includePaths P root (v # vs) = Inl TypeError"

text \<open>The callback of \<open>injectGlobalPaths.map\<close>: one \<open>@import\<close> statement.\<close>

definition import_statement :: "path_api \<Rightarrow> PluginCtx \<Rightarrow> val \<Rightarrow> string \<Rightarrow> string" where
  "import_statement P context indentedSyntax injectGlobalPath0 =
     (let injectGlobalPath =
            (if \<not> isAbsolute P injectGlobalPath0 then
               (case sys context of
                  Some s \<Rightarrow>
                    (case sys_normalizePath s of
                       Some f \<Rightarrow> f (join_paths P (rootDir context) injectGlobalPath0)
                     | None \<Rightarrow>
                         normalizePath (join_paths P (rootDir context) injectGlobalPath0))
                | None \<Rightarrow> normalizePath (join_paths P (rootDir context) injectGlobalPath0))
             else injectGlobalPath0);
          importTerminator = (if truthy indentedSyntax then [NEWLINE] else '';'')
      in ''@import '' @ [CHR 0x22] @ injectGlobalPath @ [CHR 0x22] @ importTerminator)"

fun import_statements :: "path_api \<Rightarrow> PluginCtx \<Rightarrow> val \<Rightarrow> val list \<Rightarrow> error + string list" where
  "import_statements P context indentedSyntax [] = Inr []"
| "import_statements P context indentedSyntax (Str p # vs) =
     (case import_statements P context indentedSyntax vs of
        Inl e \<Rightarrow> Inl e
      | Inr rs \<Rightarrow> Inr (import_statement P context indentedSyntax p # rs))"
| "import_statements P context indentedSyntax (v # vs) = Inl TypeError"

text \<open>
  \<open>injectText + renderOpts.data\<close>. At this point \<open>data\<close> holds the source text, a string.
\<close>

definition prepend_text :: "string \<Rightarrow> val \<Rightarrow> val" where
  "prepend_text injectText v = (case v of Str d \<Rightarrow> Str (injectText @ d) | _ \<Rightarrow> v)"

text \<open>
  The spread \<open>[...(_a ?? [])]\<close>: the elements of an array, the characters of a string,
  nothing for \<open>null\<close> and \<open>undefined\<close>, a \<open>TypeError\<close> for a value that cannot be iterated.
\<close>

definition spread_or_empty :: "heap \<Rightarrow> val \<Rightarrow> error + val list" where
  "spread_or_empty h v =
     (case v of
        Undefined \<Rightarrow> Inr []
      | Null \<Rightarrow> Inr []
      | Str s \<Rightarrow> Inr (map (\<lambda>c. Str [c]) s)
      | Ref a \<Rightarrow> (case cell_at h a of Some (Array xs) \<Rightarrow> Inr xs | _ \<Rightarrow> Inl TypeError)
      | _ \<Rightarrow> Inl TypeError)"

text \<open>
  The steps of \<open>getRenderOptions\<close>, in the order of the source. First the copy of the
  options with \<open>data\<close>, and \<open>indentedSyntax\<close>.
\<close>

definition copy_options :: "heap \<Rightarrow> addr \<Rightarrow> string \<Rightarrow> string \<Rightarrow> addr \<times> heap" where
  "copy_options h opts sourceText fileName =
     (let (renderOpts, h1) =
            alloc h (Object ((Map.empty ++ props h opts) ++ [''data'' \<mapsto> Str sourceText]));
          h2 = set_prop h1 renderOpts ''indentedSyntax'' (Boolean (test_sass fileName))
      in (renderOpts, h2))"

text \<open>
  \<open>includePaths\<close>: a copy of the user's array (or a new empty one), the directory of the
  file pushed onto it, and then a new array with every entry made absolute.
\<close>

definition set_includePaths ::
  "path_api \<Rightarrow> PluginCtx \<Rightarrow> heap \<Rightarrow> addr \<Rightarrow> addr \<Rightarrow> string \<Rightarrow> error option \<times> heap" where
  "set_includePaths P context h opts renderOpts fileName =
     (let (copy, h1) =
            (if isArray h (get_prop h opts ''includePaths'')
             then alloc h (Array (slice_from (elems h (get_prop h opts ''includePaths'')) 0))
             else alloc h (Array []));
          h2 = set_prop h1 renderOpts ''includePaths'' (Ref copy);
          h3 = array_push h2 (get_prop h2 renderOpts ''includePaths'')
                 [Str (dirname P fileName)]
      in case resolve_includePaths P (rootDir context)
                (elems h3 (get_prop h3 renderOpts ''includePaths'')) of
           Inl e \<Rightarrow> (Some e, h3)
         | Inr mapped \<Rightarrow>
             (let (arr, h4) = alloc h3 (Array mapped)
              in (None, set_prop h4 renderOpts ''includePaths'' (Ref arr))))"

text \<open>
  \<open>injectGlobalPaths\<close>: a copy of the user's array (or a new empty one); when it is not
  empty, the import statements are put in front of \<open>data\<close>.
\<close>

definition inject_globals ::
  "path_api \<Rightarrow> PluginCtx \<Rightarrow> heap \<Rightarrow> addr \<Rightarrow> addr \<Rightarrow> error option \<times> heap" where
  "inject_globals P context h opts renderOpts =
     (let (injectGlobalPaths, h1) =
            (if isArray h (get_prop h opts ''injectGlobalPaths'')
             then alloc h (Array (slice_from
                                    (elems h (get_prop h opts ''injectGlobalPaths'')) 0))
             else alloc h (Array []))
      in if length (elems h1 (Ref injectGlobalPaths)) > 0 then
           (case import_statements P context (get_prop h1 renderOpts ''indentedSyntax'')
                   (elems h1 (Ref injectGlobalPaths)) of
              Inl e \<Rightarrow> (Some e, h1)
            | Inr stmts \<Rightarrow>
                (None, set_prop h1 renderOpts ''data''
                         (prepend_text (join stmts []) (get_prop h1 renderOpts ''data''))))
         else (None, h1))"

text \<open>
  The importer list, built when the host can resolve module ids: the user's importer or
  importers, then the importer for \<open>~\<close> specifiers. That importer is a closure run later
  by the compiler; here it is the function value \<open>ModuleImporter\<close>.
\<close>

definition install_importer :: "PluginCtx \<Rightarrow> heap \<Rightarrow> addr \<Rightarrow> heap" where
  "install_importer context h renderOpts =
     (if (case sys context of Some s \<Rightarrow> has_resolveModuleId s | None \<Rightarrow> False) then
        (let (importers, h1) = alloc h (Array []);
             h2 = (case get_prop h1 renderOpts ''importer'' of
                     Function f \<Rightarrow> array_push h1 (Ref importers) [Function f]
                   | v \<Rightarrow> if isArray h1 v then array_push h1 (Ref importers) (elems h1 v)
                         else h1);
             h3 = array_push h2 (Ref importers) [Function ModuleImporter]
         in set_prop h3 renderOpts ''importer'' (Ref importers))
      else h)"

text \<open>\<open>silenceDeprecations\<close>: a new array, the old entries and then \<open>legacy-js-api\<close>.\<close>

definition set_silenceDeprecations :: "heap \<Rightarrow> addr \<Rightarrow> error option \<times> heap" where
  "set_silenceDeprecations h renderOpts =
     (case spread_or_empty h (get_prop h renderOpts ''silenceDeprecations'') of
        Inl e \<Rightarrow> (Some e, h)
      | Inr xs \<Rightarrow>
          (let (arr, h1) = alloc h (Array (xs @ [Str ''legacy-js-api'']))
           in (None, set_prop h1 renderOpts ''silenceDeprecations'' (Ref arr))))"

text \<open>
  \<open>getRenderOptions\<close>: the options object it returns, or the error it throws, and the
  store after the call. \<open>opts\<close> is the address of the user's options object.
\<close>

definition getRenderOptions ::
  "path_api \<Rightarrow> heap \<Rightarrow> addr \<Rightarrow> string \<Rightarrow> string \<Rightarrow> PluginCtx \<Rightarrow> (error + addr) \<times> heap" where
  "getRenderOptions P h opts sourceText fileName context =
     (let (renderOpts, h1) = copy_options h opts sourceText fileName in
      case set_includePaths P context h1 opts renderOpts fileName of
        (Some e, h2) \<Rightarrow> (Inl e, h2)
      | (None, h2) \<Rightarrow>
          (case inject_globals P context h2 opts renderOpts of
             (Some e, h3) \<Rightarrow> (Inl e, h3)
           | (None, h3) \<Rightarrow>
               (let h4 = delete_prop h3 renderOpts ''injectGlobalPaths'';
                    h5 = delete_prop h4 renderOpts ''file'';
                    h6 = install_importer context h5 renderOpts
                in case set_silenceDeprecations h6 renderOpts of
                     (Some e, h7) \<Rightarrow> (Inl e, h7)
                   | (None, h7) \<Rightarrow> (Inr renderOpts, h7))))"

text \<open>
  A stand-in for \<open>node:path\<close> on POSIX paths without dot segments, and a store with the
  user's options, for the concrete runs.
\<close>

definition example_path :: path_api where
  "example_path =
     \<lparr>dirname = (\<lambda>p. if CHR ''/'' \<in> set p
                      then rev (drop 1 (dropWhile (\<lambda>c. c \<noteq> CHR ''/'') (rev p)))
                      else ''.''),
      isAbsolute = (\<lambda>p. startsWith p ''/''),
      resolve = (\<lambda>root p. root @ ''/'' @ p),
      join_paths = (\<lambda>root p. root @ ''/'' @ p)\<rparr>"

definition example_heap :: heap where
  "example_heap =
     [Object [''includePaths'' \<mapsto> Ref 1, ''injectGlobalPaths'' \<mapsto> Ref 2,
              ''file'' \<mapsto> Str ''ignored.scss'', ''silenceDeprecations'' \<mapsto> Ref 3,
              ''importer'' \<mapsto> Function (UserFunction 0)],
      Array [Str ''styles'', Str ''/abs/lib''],
      Array [Str ''globals.scss''],
      Array [Str ''legacy-js-api'']]"

definition example_sys_ctx :: PluginCtx where
  "example_sys_ctx =
     example_ctx\<lparr>sys := Some \<lparr>sys_normalizePath = None, has_resolveModuleId = True\<rparr>\<rparr>"

text \<open>
  The vocabulary of the properties of \<open>getRenderOptions\<close>. \<open>frame r K h h'\<close>: going from
  store \<open>h\<close> to \<open>h'\<close>, no cell is removed, every cell of \<open>h\<close> other than \<open>r\<close> is unchanged,
  and the object at \<open>r\<close> stays an object and changes at the properties in \<open>K\<close> only.
\<close>

definition is_object :: "heap \<Rightarrow> addr \<Rightarrow> bool" where
  "is_object h a = (\<exists>m. cell_at h a = Some (Object m))"

definition frame :: "addr \<Rightarrow> string set \<Rightarrow> heap \<Rightarrow> heap \<Rightarrow> bool" where
  "frame r K h h' =
     (length h \<le> length h'
      \<and> (\<forall>a<length h. a \<noteq> r \<longrightarrow> cell_at h' a = cell_at h a)
      \<and> (\<forall>k. k \<notin> K \<longrightarrow> props h' r k = props h r k)
      \<and> (is_object h r \<longrightarrow> is_object h' r))"

definition TOUCHED :: "string set" where
  "TOUCHED = {''includePaths'', ''data'', ''injectGlobalPaths'', ''file'', ''importer'',
              ''silenceDeprecations''}"

text \<open>The store after the first step, and the two deletions with the importer step.\<close>

definition copied :: "heap \<Rightarrow> addr \<Rightarrow> string \<Rightarrow> string \<Rightarrow> heap" where
  "copied h opts sourceText fileName =
     h @ [Object ((props h opts)(''data'' \<mapsto> Str sourceText,
                                 ''indentedSyntax'' \<mapsto> Boolean (test_sass fileName)))]"

definition strip_and_import :: "PluginCtx \<Rightarrow> heap \<Rightarrow> addr \<Rightarrow> heap" where
  "strip_and_import ctx h3 r =
     install_importer ctx
       (delete_prop (delete_prop h3 r ''injectGlobalPaths'') r ''file'') r"

text \<open>
  A value of the user's that is a string, and one that refers to no cell beyond the
  user's store.
\<close>

definition is_string :: "val \<Rightarrow> bool" where
  "is_string v = (case v of Str s \<Rightarrow> True | _ \<Rightarrow> False)"

definition old_value :: "heap \<Rightarrow> val \<Rightarrow> bool" where
  "old_value h v = (case v of Ref a \<Rightarrow> a < length h | _ \<Rightarrow> True)"

text \<open>The two concrete runs: the example options, and an empty options object.\<close>

definition example_result :: "(error + addr) \<times> heap" where
  "example_result =
     getRenderOptions example_path example_heap 0 ''a { }'' ''/proj/src/a.scss''
       example_sys_ctx"

definition example_bare_result :: "(error + addr) \<times> heap" where
  "example_bare_result =
     getRenderOptions example_path [Object Map.empty] 0 ''a { }'' ''/proj/src/a.scss''
       example_ctx"


section \<open>Properties\<close>

subsection \<open>Strings\<close>

lemma charAt_last: "charAt s (int (length s) - 1) = [c] \<longleftrightarrow> s \<noteq> [] \<and> last s = c"
  by (cases s rule: rev_cases) (auto simp: charAt_def nth_append)

lemma substring_butlast: "substring s 0 (int (length s) - 1) = butlast s"
  by (cases s rule: rev_cases) (auto simp: substring_def Let_def butlast_conv_take)

lemma endsWith_single: "endsWith s [c] \<longleftrightarrow> s \<noteq> [] \<and> last s = c"
  by (cases s rule: rev_cases) (auto simp: endsWith_def)

lemma dropWhile_hd_fixed: "xs = [] \<or> \<not> P (hd xs) \<Longrightarrow> dropWhile P xs = xs"
  by (cases xs) auto

lemma trim_fixed:
  assumes "s = [] \<or> (\<not> is_whitespace (hd s) \<and> \<not> is_whitespace (last s))"
  shows "trim s = s"
proof (cases "s = []")
  case True
  then show ?thesis by (simp add: trim_def)
next
  case False
  with assms have h: "\<not> is_whitespace (hd s)" and l: "\<not> is_whitespace (last s)" by auto
  from h have "dropWhile is_whitespace s = s" by (rule_tac dropWhile_hd_fixed) simp
  moreover from l False have "dropWhile is_whitespace (rev s) = rev s"
    by (intro dropWhile_hd_fixed) (simp add: hd_rev)
  ultimately show ?thesis by (simp add: trim_def)
qed

lemma trim_ends:
  "trim s = [] \<or> (\<not> is_whitespace (hd (trim s)) \<and> \<not> is_whitespace (last (trim s)))"
proof (cases "trim s = []")
  case True
  then show ?thesis by simp
next
  case False
  define a where "a = dropWhile is_whitespace s"
  define b where "b = dropWhile is_whitespace (rev a)"
  have t: "trim s = rev b" by (simp add: trim_def a_def b_def)
  with False have b: "b \<noteq> []" by simp
  then have hb: "\<not> is_whitespace (hd b)" unfolding b_def by (rule hd_dropWhile)
  have "rev a = takeWhile is_whitespace (rev a) @ b" by (simp add: b_def)
  with b have "last (rev a) = last b" by (metis last_appendR)
  moreover from b have a: "a \<noteq> []" by (auto simp: b_def)
  ultimately have "last b = hd a" by (simp add: last_rev)
  moreover from a have "\<not> is_whitespace (hd a)" unfolding a_def by (rule hd_dropWhile)
  ultimately show ?thesis using hb b by (simp add: t hd_rev last_rev)
qed

lemma trim_trim: "trim (trim s) = trim s"
  by (rule trim_fixed) (rule trim_ends)

lemma indexOf_range: "-1 \<le> indexOf xs x \<and> indexOf xs x < int (length xs)"
  by (induction xs) (auto simp: Let_def)

lemma indexOf_member: "x \<in> set xs \<Longrightarrow> 0 \<le> indexOf xs x"
  by (induction xs) (auto simp: Let_def)

lemma indexOf_absent: "x \<notin> set xs \<Longrightarrow> indexOf xs x = -1"
  by (induction xs) (auto simp: Let_def)

lemma indexOf_found: "indexOf xs x > -1 \<longleftrightarrow> x \<in> set xs"
proof (cases "x \<in> set xs")
  case True
  with indexOf_member [OF True] show ?thesis by simp
next
  case False
  with indexOf_absent [OF False] show ?thesis by simp
qed

lemma indexOf_nth: "x \<in> set xs \<Longrightarrow> xs ! nat (indexOf xs x) = x"
  by (induction xs) (auto simp: Let_def indexOf_found [symmetric] nat_add_distrib)

lemma indexOf_first: "i < nat (indexOf xs x) \<Longrightarrow> x \<in> set xs \<Longrightarrow> xs ! i \<noteq> x"
proof (induction xs arbitrary: i)
  case Nil
  then show ?case by simp
next
  case (Cons y ys)
  show ?case
  proof (cases "y = x")
    case True
    with Cons.prems show ?thesis by simp
  next
    case False
    with Cons.prems have m: "x \<in> set ys" by simp
    then have p: "indexOf ys x > -1" by (simp add: indexOf_found)
    show ?thesis
    proof (cases i)
      case 0
      with False show ?thesis by simp
    next
      case (Suc j)
      with Cons.prems False p have "j < nat (indexOf ys x)"
        by (simp add: Let_def nat_add_distrib split: if_splits)
      with Cons.IH m Suc show ?thesis by simp
    qed
  qed
qed

subsection \<open>Path normalisation\<close>

lemma normalizePath_kept:
  "EXTENDED_PATH_REGEX_test (trim p) \<or> NON_ASCII_REGEX_test (trim p) \<Longrightarrow>
   normalizePath p = trim p"
  by (auto simp: normalizePath_def)

lemma normalizePath_converted:
  assumes "\<not> EXTENDED_PATH_REGEX_test (trim p)" and "\<not> NON_ASCII_REGEX_test (trim p)"
  shows "normalizePath p =
           (let t = replace_SLASH_REGEX (trim p)
            in if endsWith t ''/'' \<and> t \<noteq> ''/'' \<and> \<not> first_colon_near_end t
               then butlast t else t)"
proof -
  define t where "t = replace_SLASH_REGEX (trim p)"
  have n: "normalizePath p =
      (if t \<noteq> [] \<and> last t = CHR ''/'' then
         (if indexOf t (CHR '':'') > -1 then
            (if indexOf t (CHR '':'') < int (length t) - 2 then butlast t else t)
          else if length t > 1 then butlast t else t)
       else t)"
    using assms by (simp add: normalizePath_def Let_def t_def [symmetric] charAt_last
        substring_butlast)
  show ?thesis
  proof (cases "t \<noteq> [] \<and> last t = CHR ''/''")
    case False
    with n show ?thesis
      by (auto simp: Let_def t_def [symmetric] endsWith_single)
  next
    case True
    then have e: "endsWith t ''/''" by (simp add: endsWith_single)
    show ?thesis
    proof (cases "indexOf t (CHR '':'') > -1")
      case c: True
      then have "CHR '':'' \<in> set t" by (simp add: indexOf_found)
      then have "t \<noteq> ''/''" by auto
      with n True e c show ?thesis
        by (auto simp: Let_def t_def [symmetric] first_colon_near_end_def)
    next
      case c: False
      from True have "length t > 1 \<longleftrightarrow> t \<noteq> ''/''"
        by (cases t rule: rev_cases) auto
      with n True e c show ?thesis
        by (auto simp: Let_def t_def [symmetric] first_colon_near_end_def)
    qed
  qed
qed

lemma is_whitespace_convert:
  "is_whitespace (if c = BACKSLASH then CHR ''/'' else c) = is_whitespace c"
  by (simp add: is_whitespace_def BACKSLASH_def)

lemma dropWhile_replace:
  "dropWhile is_whitespace (replace_SLASH_REGEX s) =
   replace_SLASH_REGEX (dropWhile is_whitespace s)"
  by (simp add: replace_SLASH_REGEX_def dropWhile_map comp_def is_whitespace_convert)

lemma rev_replace: "rev (replace_SLASH_REGEX s) = replace_SLASH_REGEX (rev s)"
  by (simp add: replace_SLASH_REGEX_def rev_map)

lemma trim_replace: "trim (replace_SLASH_REGEX s) = replace_SLASH_REGEX (trim s)"
  by (simp add: trim_def dropWhile_replace rev_replace)

lemma replace_replace: "replace_SLASH_REGEX (replace_SLASH_REGEX s) = replace_SLASH_REGEX s"
  by (simp add: replace_SLASH_REGEX_def BACKSLASH_def)

lemma replace_not_extended: "\<not> EXTENDED_PATH_REGEX_test (replace_SLASH_REGEX s)"
  by (cases s) (auto simp: EXTENDED_PATH_REGEX_test_def startsWith_def replace_SLASH_REGEX_def
      BACKSLASH_def)

lemma replace_non_ascii:
  "NON_ASCII_REGEX_test (replace_SLASH_REGEX s) = NON_ASCII_REGEX_test s"
  by (induction s) (auto simp: NON_ASCII_REGEX_test_def replace_SLASH_REGEX_def BACKSLASH_def)

lemma replace_last:
  "s \<noteq> [] \<Longrightarrow> last (replace_SLASH_REGEX s) = CHR ''/'' \<longleftrightarrow>
     last s = CHR ''/'' \<or> last s = BACKSLASH"
  by (cases s rule: rev_cases) (auto simp: replace_SLASH_REGEX_def)

lemma normalizePath_fixed:
  assumes "\<not> endsWith (trim p) ''/''" and "\<not> endsWith (trim p) [BACKSLASH]"
  shows "normalizePath (normalizePath p) = normalizePath p"
proof (cases "EXTENDED_PATH_REGEX_test (trim p) \<or> NON_ASCII_REGEX_test (trim p)")
  case True
  then have "normalizePath p = trim p" by (rule normalizePath_kept)
  moreover from True have "normalizePath (trim p) = trim p"
    by (simp add: normalizePath_kept trim_trim)
  ultimately show ?thesis by simp
next
  case False
  define t where "t = replace_SLASH_REGEX (trim p)"
  from assms have nl: "\<not> endsWith t ''/''"
  proof (cases "trim p = []")
    case True
    then show ?thesis by (simp add: t_def endsWith_single replace_SLASH_REGEX_def)
  next
    case False
    with assms replace_last [OF False] show ?thesis
      by (simp add: t_def endsWith_single)
  qed
  from False nl have 1: "normalizePath p = t"
    by (simp add: normalizePath_converted Let_def t_def [symmetric])
  have tt: "trim t = t" by (simp add: t_def trim_replace trim_trim)
  have "\<not> EXTENDED_PATH_REGEX_test (trim t)"
    unfolding tt by (simp add: t_def replace_not_extended)
  moreover from False have "\<not> NON_ASCII_REGEX_test (trim t)"
    unfolding tt by (simp add: t_def replace_non_ascii)
  ultimately have "normalizePath t =
     (let u = replace_SLASH_REGEX (trim t)
      in if endsWith u ''/'' \<and> u \<noteq> ''/'' \<and> \<not> first_colon_near_end u then butlast u else u)"
    by (rule normalizePath_converted)
  moreover have "replace_SLASH_REGEX (trim t) = t"
    unfolding tt by (simp add: t_def replace_replace)
  ultimately have "normalizePath t = t" using nl by (simp add: Let_def)
  with 1 show ?thesis by simp
qed

lemma ascii_not_NON_ASCII: "list_all is_ascii s \<Longrightarrow> \<not> NON_ASCII_REGEX_test (trim s)"
proof -
  assume a: "list_all is_ascii s"
  have "set (trim s) \<subseteq> set s"
    by (auto simp: trim_def dest!: set_dropWhileD)
  with a have "\<forall>c\<in>set (trim s). (of_char c :: nat) < 128"
    by (auto simp: list_all_iff is_ascii_def)
  then show ?thesis
    by (fastforce simp: NON_ASCII_REGEX_test_def list_ex_iff)
qed

lemma first_colon_near_end_struct:
  assumes "endsWith t ''/''"
  shows "first_colon_near_end t \<longleftrightarrow> (\<exists>u. t = u @ '':/'' \<and> CHR '':'' \<notin> set u)"
proof
  assume "first_colon_near_end t"
  then have f: "indexOf t (CHR '':'') > -1" and g: "indexOf t (CHR '':'') \<ge> int (length t) - 2"
    by (simp_all add: first_colon_near_end_def Let_def)
  define i where "i = nat (indexOf t (CHR '':''))"
  from f have m: "CHR '':'' \<in> set t" by (simp add: indexOf_found)
  then have n: "t ! i = CHR '':''" unfolding i_def by (rule indexOf_nth)
  from indexOf_range [of t "CHR '':''"] f have il: "i < length t" by (simp add: i_def)
  from assms have l: "t \<noteq> [] \<and> last t = CHR ''/''" by (simp add: endsWith_single)
  with last_conv_nth [of t] have "t ! (length t - 1) = CHR ''/''" by simp
  with n have "i \<noteq> length t - 1" by auto
  with il g f have i2: "Suc (Suc i) = length t" by (simp add: i_def)
  have "t = take i t @ t ! i # drop (Suc i) t" using il by (rule id_take_nth_drop)
  moreover have "drop (Suc i) t = [last t]"
    using i2 l by (metis append_butlast_last_id append_eq_conv_conj length_butlast
        diff_Suc_1)
  moreover have "CHR '':'' \<notin> set (take i t)"
  proof
    assume "CHR '':'' \<in> set (take i t)"
    then obtain j where "j < length (take i t)" and "take i t ! j = CHR '':''"
      by (auto simp: in_set_conv_nth)
    then have "j < i" and "t ! j = CHR '':''" by simp_all
    with indexOf_first [of j t "CHR '':''"] m show False by (simp add: i_def)
  qed
  ultimately show "\<exists>u. t = u @ '':/'' \<and> CHR '':'' \<notin> set u"
    using n l by (intro exI [of _ "take i t"]) simp
next
  assume "\<exists>u. t = u @ '':/'' \<and> CHR '':'' \<notin> set u"
  then obtain u where t: "t = u @ '':/''" and u: "CHR '':'' \<notin> set u" by blast
  from u have "indexOf (u @ '':/'') (CHR '':'') = int (length u)"
    by (induction u) (auto simp: Let_def)
  with t show "first_colon_near_end t" by (simp add: first_colon_near_end_def)
qed

text \<open>
  Claim C3, as amended. For an ASCII path that is not kept verbatim for its \<open>\\?\\<close>
  prefix, \<open>normalizePath\<close> trims the path, turns every backslash into a slash and then
  strips one trailing slash, except that the slash stays when the \<^emph>\<open>first\<close> colon of the
  string sits within two characters of the end (a drive root) and when the whole string is
  the single character \<open>/\<close>. So \<open>C:\foo\bar\\<close> becomes \<open>C:/foo/bar\<close> and \<open>C:\\<close> becomes
  \<open>C:/\<close>.
\<close>

theorem normalizePath_strips_trailing_slash:
  "(list_all is_ascii p \<and> \<not> EXTENDED_PATH_REGEX_test (trim p) \<longrightarrow>
      normalizePath p =
        (let t = replace_SLASH_REGEX (trim p)
         in if endsWith t ''/'' \<and> t \<noteq> ''/'' \<and> \<not> first_colon_near_end t
            then butlast t else t))
   \<and> normalizePath (''C:'' @ [BACKSLASH] @ ''foo'' @ [BACKSLASH] @ ''bar'' @ [BACKSLASH])
       = ''C:/foo/bar''
   \<and> normalizePath (''C:'' @ [BACKSLASH]) = ''C:/''"
proof (intro conjI impI)
  assume "list_all is_ascii p \<and> \<not> EXTENDED_PATH_REGEX_test (trim p)"
  then show "normalizePath p =
        (let t = replace_SLASH_REGEX (trim p)
         in if endsWith t ''/'' \<and> t \<noteq> ''/'' \<and> \<not> first_colon_near_end t
            then butlast t else t)"
    by (intro normalizePath_converted ascii_not_NON_ASCII) simp_all
next
  show "normalizePath (''C:'' @ [BACKSLASH] @ ''foo'' @ [BACKSLASH] @ ''bar'' @ [BACKSLASH])
       = ''C:/foo/bar''"
    by code_simp
next
  show "normalizePath (''C:'' @ [BACKSLASH]) = ''C:/''"
    by code_simp
qed

text \<open>The amended claim C3 at the path \<open>lib/a:b/\<close> with surrounding blanks.\<close>

theorem normalizePath_strips_trailing_slash_witness:
  "list_all is_ascii '' lib/a:b/ '' \<and> \<not> EXTENDED_PATH_REGEX_test (trim '' lib/a:b/ '')
   \<and> endsWith (replace_SLASH_REGEX (trim '' lib/a:b/ '')) ''/''
   \<and> \<not> first_colon_near_end (replace_SLASH_REGEX (trim '' lib/a:b/ ''))
   \<and> normalizePath '' lib/a:b/ '' = ''lib/a:b''"
  using normalizePath_strips_trailing_slash [of "'' lib/a:b/ ''"]
  by (simp add: is_ascii_def EXTENDED_PATH_REGEX_test_def startsWith_def trim_def
      is_whitespace_def replace_SLASH_REGEX_def BACKSLASH_def endsWith_def
      first_colon_near_end_def)

text \<open>
  Claim C3 as stated fails where a later colon is the one near the end: in \<open>a:b:/\<close> a
  colon sits two characters from the end, yet the trailing slash is stripped, because the
  code measures the first colon.
\<close>

theorem normalizePath_later_colon_counterexample:
  "list_all is_ascii ''a:b:/'' \<and> some_colon_near_end ''a:b:/''
   \<and> normalizePath ''a:b:/'' = ''a:b:'' \<and> normalizePath ''a:b:/'' \<noteq> ''a:b:/''"
  by (simp add: is_ascii_def some_colon_near_end_def normalizePath_def trim_def
      is_whitespace_def EXTENDED_PATH_REGEX_test_def NON_ASCII_REGEX_test_def startsWith_def
      replace_SLASH_REGEX_def charAt_def substring_def BACKSLASH_def)

text \<open>
  Claim C9, as amended. For every ASCII path without a colon near its end whose text,
  once trimmed, ends with neither a slash nor a backslash, normalising twice gives the
  same as normalising once. (\<open>normalizePath_fixed\<close> above shows that the condition on the
  trimmed end is the only one needed.)
\<close>

theorem normalizePath_idempotent:
  assumes "list_all is_ascii p" and "\<not> first_colon_near_end p"
      and "\<not> endsWith (trim p) ''/''" and "\<not> endsWith (trim p) [BACKSLASH]"
  shows "normalizePath (normalizePath p) = normalizePath p"
proof -
  from assms(3,4) show ?thesis by (rule normalizePath_fixed)
qed

text \<open>The amended claim C9 at the path \<open>src\a/b.scss\<close> with surrounding blanks.\<close>

theorem normalizePath_idempotent_witness:
  "list_all is_ascii ('' src'' @ [BACKSLASH] @ ''a/b.scss '')
   \<and> \<not> first_colon_near_end ('' src'' @ [BACKSLASH] @ ''a/b.scss '')
   \<and> \<not> endsWith (trim ('' src'' @ [BACKSLASH] @ ''a/b.scss '')) ''/''
   \<and> \<not> endsWith (trim ('' src'' @ [BACKSLASH] @ ''a/b.scss '')) [BACKSLASH]
   \<and> normalizePath ('' src'' @ [BACKSLASH] @ ''a/b.scss '') = ''src/a/b.scss''
   \<and> normalizePath (normalizePath ('' src'' @ [BACKSLASH] @ ''a/b.scss ''))
       = normalizePath ('' src'' @ [BACKSLASH] @ ''a/b.scss '')"
proof -
  have 1: "list_all is_ascii ('' src'' @ [BACKSLASH] @ ''a/b.scss '')"
    by (simp add: is_ascii_def BACKSLASH_def)
  have 2: "\<not> first_colon_near_end ('' src'' @ [BACKSLASH] @ ''a/b.scss '')"
    by (simp add: first_colon_near_end_def BACKSLASH_def)
  have 3: "\<not> endsWith (trim ('' src'' @ [BACKSLASH] @ ''a/b.scss '')) ''/''"
    by (simp add: endsWith_def trim_def is_whitespace_def BACKSLASH_def)
  have 4: "\<not> endsWith (trim ('' src'' @ [BACKSLASH] @ ''a/b.scss '')) [BACKSLASH]"
    by (simp add: endsWith_def trim_def is_whitespace_def BACKSLASH_def)
  have 5: "normalizePath ('' src'' @ [BACKSLASH] @ ''a/b.scss '') = ''src/a/b.scss''"
    by code_simp
  from normalizePath_idempotent [OF 1 2 3 4] 1 2 3 4 5 show ?thesis by simp
qed

text \<open>
  Claim C9 as stated fails at two ASCII paths that have no colon and do not end with a
  slash: \<open>a//\<close> followed by a blank, and \<open>a\\\<close>. Both normalise to \<open>a/\<close>, which
  normalises to \<open>a\<close>: only one trailing slash is stripped per call.
\<close>

theorem normalizePath_idempotent_counterexample:
  "(list_all is_ascii ''a// '' \<and> \<not> endsWith ''a// '' ''/''
      \<and> \<not> endsWith ''a// '' [BACKSLASH] \<and> \<not> first_colon_near_end ''a// ''
      \<and> normalizePath ''a// '' = ''a/''
      \<and> normalizePath (normalizePath ''a// '') = ''a''
      \<and> normalizePath (normalizePath ''a// '') \<noteq> normalizePath ''a// '')
   \<and> (list_all is_ascii [CHR ''a'', BACKSLASH, BACKSLASH]
      \<and> \<not> endsWith [CHR ''a'', BACKSLASH, BACKSLASH] ''/''
      \<and> \<not> first_colon_near_end [CHR ''a'', BACKSLASH, BACKSLASH]
      \<and> normalizePath [CHR ''a'', BACKSLASH, BACKSLASH] = ''a/''
      \<and> normalizePath (normalizePath [CHR ''a'', BACKSLASH, BACKSLASH]) = ''a''
      \<and> normalizePath (normalizePath [CHR ''a'', BACKSLASH, BACKSLASH])
          \<noteq> normalizePath [CHR ''a'', BACKSLASH, BACKSLASH])"
  by (simp add: is_ascii_def first_colon_near_end_def normalizePath_def trim_def
      is_whitespace_def EXTENDED_PATH_REGEX_test_def NON_ASCII_REGEX_test_def startsWith_def
      endsWith_def replace_SLASH_REGEX_def charAt_def substring_def BACKSLASH_def)

subsection \<open>Module specifiers\<close>

lemma split_acc_nonempty: "split_acc c cur s \<noteq> []"
  by (induction s arbitrary: cur) auto

lemma split_acc_first:
  "split_acc c cur s =
     (rev cur @ takeWhile (\<lambda>x. x \<noteq> c) s) #
     (case dropWhile (\<lambda>x. x \<noteq> c) s of [] \<Rightarrow> [] | _ # r \<Rightarrow> split_acc c [] r)"
  by (induction s arbitrary: cur) auto

lemma join_Cons: "ys \<noteq> [] \<Longrightarrow> join (x # ys) sep = x @ sep @ join ys sep"
  by (cases ys) auto

lemma join_split_acc: "join (split_acc c cur s) [c] = rev cur @ s"
proof (induction s arbitrary: cur)
  case Nil
  then show ?case by simp
next
  case (Cons x xs)
  then show ?case by (simp add: join_Cons split_acc_nonempty)
qed

lemma join_split: "join (split s c) [c] = s"
  by (simp add: split_def join_split_acc)

lemma length_split: "length (split s c) > 1 \<longleftrightarrow> c \<in> set s"
proof -
  have "length (split_acc c cur s) > 1 \<longleftrightarrow> c \<in> set s" for cur
    by (induction s arbitrary: cur) (auto simp: split_acc_nonempty)
  then show ?thesis by (simp add: split_def)
qed

lemma slice_take: "slice xs 0 (int n) = take n xs"
  by (auto simp: slice_def slice_index_def Let_def min_def)

lemma slice_from_drop: "slice_from xs (int n) = drop n xs"
  by (auto simp: slice_from_def slice_def slice_index_def Let_def min_def)

lemma startsWith_single: "startsWith s [c] \<longleftrightarrow> s \<noteq> [] \<and> hd s = c"
  by (cases s) (auto simp: startsWith_def)

lemma substring_from_tl: "substring_from s 1 = tl s"
  by (cases s) (auto simp: substring_from_def substring_def Let_def)

lemma at_index_first: "xs \<noteq> [] \<Longrightarrow> at_index xs 0 = Some (hd xs)"
  by (cases xs) (auto simp: at_index_def)

text \<open>
  Claim C4. \<open>getModuleId\<close> drops one leading \<open>~\<close> and splits the rest at \<open>/\<close>. When the
  rest starts with \<open>@\<close> and has more than one segment, \<open>moduleId\<close> is the first two
  segments joined by \<open>/\<close>; otherwise it is the first segment, the text before the first
  \<open>/\<close>. \<open>filePath\<close> is the remaining segments joined by \<open>/\<close>, the empty string when there
  are none. Both fields are strings on return, and the two examples of the specification
  hold.
\<close>

theorem getModuleId_splits:
  "getModuleId spec =
     (let rest = (if spec \<noteq> [] \<and> hd spec = CHR ''~'' then tl spec else spec);
          segs = split rest (CHR ''/'')
      in if rest \<noteq> [] \<and> hd rest = CHR ''@'' \<and> length segs > 1
         then \<lparr>moduleId = Some (join (take 2 segs) ''/''),
               filePath = Some (join (drop 2 segs) ''/'')\<rparr>
         else \<lparr>moduleId = Some (takeWhile (\<lambda>c. c \<noteq> CHR ''/'') rest),
               filePath = Some (join (drop 1 segs) ''/'')\<rparr>)
   \<and> getModuleId ''~lodash/merge'' = \<lparr>moduleId = Some ''lodash'', filePath = Some ''merge''\<rparr>
   \<and> getModuleId ''~@scope/pkg/file.scss''
       = \<lparr>moduleId = Some ''@scope/pkg'', filePath = Some ''file.scss''\<rparr>
   \<and> moduleId (getModuleId spec) \<noteq> None \<and> filePath (getModuleId spec) \<noteq> None
   \<and> join [] ''/'' = ''''"
proof -
  define rest where "rest = (if spec \<noteq> [] \<and> hd spec = CHR ''~'' then tl spec else spec)"
  define segs where "segs = split rest (CHR ''/'')"
  have ne: "segs \<noteq> []" by (simp add: segs_def split_def split_acc_nonempty)
  have hd: "hd segs = takeWhile (\<lambda>c. c \<noteq> CHR ''/'') rest"
    unfolding segs_def split_def by (subst split_acc_first) simp
  have s2: "slice segs 0 2 = take 2 segs" using slice_take [of segs 2] by simp
  have d2: "slice_from segs 2 = drop 2 segs" using slice_from_drop [of segs 2] by simp
  have d1: "slice_from segs 1 = drop 1 segs" using slice_from_drop [of segs 1] by simp
  have g: "getModuleId spec =
     (if rest \<noteq> [] \<and> hd rest = CHR ''@'' \<and> length segs > 1
      then \<lparr>moduleId = Some (join (take 2 segs) ''/''),
            filePath = Some (join (drop 2 segs) ''/'')\<rparr>
      else \<lparr>moduleId = Some (takeWhile (\<lambda>c. c \<noteq> CHR ''/'') rest),
            filePath = Some (join (drop 1 segs) ''/'')\<rparr>)"
    unfolding getModuleId_def startsWith_single substring_from_tl rest_def [symmetric] Let_def
      segs_def [symmetric] s2 d2 d1
    using ne hd by (simp add: at_index_first)
  have e1: "getModuleId ''~lodash/merge'' = \<lparr>moduleId = Some ''lodash'', filePath = Some ''merge''\<rparr>"
    by code_simp
  have e2: "getModuleId ''~@scope/pkg/file.scss''
       = \<lparr>moduleId = Some ''@scope/pkg'', filePath = Some ''file.scss''\<rparr>"
    by code_simp
  from g have n: "moduleId (getModuleId spec) \<noteq> None \<and> filePath (getModuleId spec) \<noteq> None"
    by simp
  from g e1 e2 n show ?thesis
    by (simp add: Let_def rest_def [symmetric] segs_def [symmetric])
qed

subsection \<open>Diagnostics\<close>

lemma scan_backward_range:
  "scan_backward tx i start = start \<or> (0 \<le> scan_backward tx i start \<and> scan_backward tx i start \<le> i)"
proof (induction tx i start rule: scan_backward.induct)
  case (1 tx i start)
  show ?case
  proof (cases "i \<ge> 0 \<and> \<not> indexOf STOP_CHARS (charAt tx i) > -1")
    case True
    with "1.IH" have "scan_backward tx (i - 1) i = i \<or>
        (0 \<le> scan_backward tx (i - 1) i \<and> scan_backward tx (i - 1) i \<le> i - 1)"
      by simp
    moreover from True have "scan_backward tx i start = scan_backward tx (i - 1) i"
      by (subst scan_backward.simps) simp
    ultimately show ?thesis using True by auto
  next
    case False
    then have "scan_backward tx i start = start"
      by (subst scan_backward.simps) auto
    then show ?thesis by simp
  qed
qed

lemma scan_backward_nonneg: "0 \<le> start \<Longrightarrow> 0 \<le> scan_backward tx i start"
  using scan_backward_range [of tx i start] by auto

lemma scan_forward_ge: "len \<le> scan_forward tx j len"
proof (induction tx j len rule: scan_forward.induct)
  case (1 tx j len)
  show ?case
  proof (cases "j \<le> int (length tx) \<and> \<not> indexOf STOP_CHARS (charAt tx j) > -1")
    case True
    with "1.IH" have "len + 1 \<le> scan_forward tx (j + 1) (len + 1)" by simp
    moreover from True have "scan_forward tx j len = scan_forward tx (j + 1) (len + 1)"
      by (subst scan_forward.simps) simp
    ultimately show ?thesis by simp
  next
    case False
    then have "scan_forward tx j len = len"
      by (subst scan_forward.simps) auto
    then show ?thesis by simp
  qed
qed

lemma find_span_frame:
  "lineIndex (find_span l) = lineIndex l \<and> lineNumber (find_span l) = lineNumber l
   \<and> text_line (find_span l) = text_line l"
  by (simp add: find_span_def Let_def split: option.splits)

lemma find_span_nonneg:
  assumes "errorCharStart l = Some c" and "0 \<le> c" and "0 \<le> errorLength l"
  shows "\<exists>s. errorCharStart (find_span l) = Some s \<and> 0 \<le> s \<and> 0 \<le> errorLength (find_span l)"
proof -
  define tx where "tx = (case text_line l of Some t \<Rightarrow> t | None \<Rightarrow> [])"
  define start where "start = scan_backward tx c c"
  define len where "len = scan_forward tx start (errorLength l)"
  from assms(2) have s: "0 \<le> start" unfolding start_def by (rule scan_backward_nonneg)
  from assms(3) scan_forward_ge [of "errorLength l" tx start] have n: "0 \<le> len"
    by (simp add: len_def)
  have "find_span l =
     (if len = 0 \<and> start > 0
      then l\<lparr>errorCharStart := Some (start - 1), errorLength := 1\<rparr>
      else l\<lparr>errorCharStart := Some start, errorLength := len\<rparr>)"
    using assms(1) by (simp add: find_span_def Let_def tx_def start_def len_def)
  with s n show ?thesis by auto
qed

lemma find_span_empty_text:
  assumes "errorCharStart l = Some c" and "0 < c" and "errorLength l = 0"
      and "text_line l = Some []"
  shows "find_span l = l\<lparr>errorCharStart := Some (c - 1), errorLength := 1\<rparr>"
proof -
  have b: "scan_backward [] c c = c"
    using assms(2) by (subst scan_backward.simps) (simp add: charAt_def STOP_CHARS_def)
  have f: "scan_forward [] c 0 = 0"
    using assms(2) by (subst scan_forward.simps) simp
  from assms b f show ?thesis by (simp add: find_span_def Let_def)
qed

lemma error_entry_frame:
  "lineIndex (error_entry srcLines idx num col) = idx
   \<and> lineNumber (error_entry srcLines idx num col) = num
   \<and> text_line (error_entry srcLines idx num col)
       = Some (case at_index srcLines idx of Some t \<Rightarrow> t | None \<Rightarrow> [])"
  by (simp add: error_entry_def find_span_frame)

lemma context_lines_shape:
  "context_lines srcLines idx num col =
     (if idx > 0 then [context_entry srcLines (idx - 1) (num - 1)] else [])
     @ [error_entry srcLines idx num col]
     @ (if idx + 1 < int (length srcLines) then [context_entry srcLines (idx + 1) (num + 1)]
        else [])"
  unfolding context_lines_def Let_def error_entry_def [symmetric]
  by (simp add: error_entry_frame context_entry_def)

lemma error_entry_nonneg:
  "0 \<le> c \<Longrightarrow> \<exists>s. errorCharStart (error_entry srcLines idx num (Some c)) = Some s \<and> 0 \<le> s
     \<and> 0 \<le> errorLength (error_entry srcLines idx num (Some c))"
  unfolding error_entry_def by (rule find_span_nonneg) simp_all

lemma context_entry_simps:
  "lineIndex (context_entry srcLines idx num) = idx"
  "sentinel_span (context_entry srcLines idx num)"
  by (simp_all add: context_entry_def sentinel_span_def)

lemma with_file_context_lines:
  "lines (with_file_context ctx err path d0) =
     (case line err of
        None \<Rightarrow> lines d0
      | Some n \<Rightarrow>
          if n - 1 > -1 then
            (case readFileSync ctx path of
               None \<Rightarrow> lines d0
             | Some src \<Rightarrow> context_lines (split_lines src) (n - 1) n (column err))
          else lines d0)"
  by (simp add: with_file_context_def Let_def split: option.splits)

lemma with_file_context_path: "absFilePath (with_file_context ctx err path d0) = Some path"
  by (simp add: with_file_context_def Let_def split: option.splits)

lemma loadDiagnostic_Some:
  "loadDiagnostic (Some ctx) (Some err) fp = (Some d, c') \<Longrightarrow>
     c' = Some (ctx\<lparr>diagnostics := diagnostics ctx @ [d]\<rparr>)
     \<and> absFilePath d = effective_path err fp
     \<and> lines d =
         (case effective_path err fp of
            None \<Rightarrow> []
          | Some path \<Rightarrow>
              (case line err of
                 None \<Rightarrow> []
               | Some n \<Rightarrow>
                   if n - 1 > -1 then
                     (case readFileSync ctx path of
                        None \<Rightarrow> []
                      | Some src \<Rightarrow> context_lines (split_lines src) (n - 1) n (column err))
                   else []))"
  by (auto simp: loadDiagnostic_def Let_def effective_path_def [symmetric]
      with_file_context_lines with_file_context_path split: option.splits)

lemma split_lines_example:
  "split_lines example_source = [''a {'', ''  color: red;'', ''}'']"
  by (simp add: split_lines_def example_source_def NEWLINE_def CARRIAGE_RETURN_def)

lemma stop_eval:
  "indexOf STOP_CHARS [] > -1"
  "indexOf STOP_CHARS '' '' > -1"
  "indexOf STOP_CHARS '';'' > -1"
  "\<not> indexOf STOP_CHARS ''r'' > -1"
  "\<not> indexOf STOP_CHARS ''e'' > -1"
  "\<not> indexOf STOP_CHARS ''d'' > -1"
  by (simp_all add: STOP_CHARS_def NEWLINE_def CARRIAGE_RETURN_def TAB_def)

lemma error_entry_example:
  "error_entry [''a {'', ''  color: red;'', ''}''] 1 2 (Some 10)
     = \<lparr>lineIndex = 1, lineNumber = 2, text_line = Some ''  color: red;'',
        errorCharStart = Some 9, errorLength = 3\<rparr>"
proof -
  have b: "scan_backward ''  color: red;'' 10 10 = 9"
    by (simp add: scan_backward.simps [of _ 10] scan_backward.simps [of _ 9]
        scan_backward.simps [of _ 8] charAt_def stop_eval)
  have f: "scan_forward ''  color: red;'' 9 0 = 3"
    by (simp add: scan_forward.simps [of _ 9] scan_forward.simps [of _ 10]
        scan_forward.simps [of _ 11] scan_forward.simps [of _ 12] charAt_def stop_eval)
  show ?thesis
    by (simp add: error_entry_def find_span_def at_index_def b f)
qed

text \<open>
  Claim C1. For a file whose lines are \<open>a {\<close>, \<open>  color: red;\<close> and \<open>}\<close> and an error at
  line 2, column 10, the diagnostic has exactly three entries with line indices 0, 1, 2:
  the first and the last carry the sentinel span, and the middle one starts at index 9,
  the \<open>r\<close> of \<open>red\<close>, with length 3.
\<close>

theorem loadDiagnostic_example_window:
  assumes "split_lines src = [''a {'', ''  color: red;'', ''}'']"
      and "readFileSync ctx path = Some src"
      and "effective_path err fp = Some path"
      and "line err = Some 2" and "column err = Some 10"
  shows "map_option lines (fst (loadDiagnostic (Some ctx) (Some err) fp)) =
           Some [\<lparr>lineIndex = 0, lineNumber = 1, text_line = Some ''a {'',
                   errorCharStart = Some (-1), errorLength = -1\<rparr>,
                 \<lparr>lineIndex = 1, lineNumber = 2, text_line = Some ''  color: red;'',
                   errorCharStart = Some 9, errorLength = 3\<rparr>,
                 \<lparr>lineIndex = 2, lineNumber = 3, text_line = Some ''}'',
                   errorCharStart = Some (-1), errorLength = -1\<rparr>]
         \<and> ''  color: red;'' ! 9 = CHR ''r''"
proof -
  obtain d c' where r: "loadDiagnostic (Some ctx) (Some err) fp = (Some d, c')"
    by (simp add: loadDiagnostic_def Let_def)
  from loadDiagnostic_Some [OF r] assms
  have "lines d = context_lines [''a {'', ''  color: red;'', ''}''] 1 2 (Some 10)"
    by simp
  then show ?thesis
    by (simp add: r context_lines_shape error_entry_example context_entry_def at_index_def)
qed

text \<open>Claim C1 on the example context, whose file is read with LF line ends.\<close>

theorem loadDiagnostic_example_window_witness:
  "split_lines example_source = [''a {'', ''  color: red;'', ''}'']
   \<and> readFileSync example_ctx ''/proj/src/a.scss'' = Some example_source
   \<and> effective_path example_error (Some ''/proj/src/a.scss'') = Some ''/proj/src/a.scss''
   \<and> line example_error = Some 2 \<and> column example_error = Some 10
   \<and> map_option (\<lambda>d. map errorCharStart (lines d))
        (fst (loadDiagnostic (Some example_ctx) (Some example_error)
               (Some ''/proj/src/a.scss''))) = Some [Some (-1), Some 9, Some (-1)]
   \<and> map_option (\<lambda>d. map errorLength (lines d))
        (fst (loadDiagnostic (Some example_ctx) (Some example_error)
               (Some ''/proj/src/a.scss''))) = Some [-1, 3, -1]"
proof -
  have 1: "split_lines example_source = [''a {'', ''  color: red;'', ''}'']"
    by (rule split_lines_example)
  have 2: "readFileSync example_ctx ''/proj/src/a.scss'' = Some example_source"
    by (simp add: example_ctx_def)
  have 3: "effective_path example_error (Some ''/proj/src/a.scss'') = Some ''/proj/src/a.scss''"
    by (simp add: effective_path_def example_error_def)
  have 4: "line example_error = Some 2" and 5: "column example_error = Some 10"
    by (simp_all add: example_error_def)
  from loadDiagnostic_example_window [OF 1 2 3 4 5] 1 2 3 4 5 show ?thesis
    by (auto simp: map_option_case split: option.splits)
qed

lemma loadDiagnostic_lines_cases:
  assumes "loadDiagnostic (Some ctx) (Some err) fp = (Some d, c')" and "line err = Some n"
  shows "lines d = [] \<or>
         (\<exists>path src. absFilePath d = Some path \<and> readFileSync ctx path = Some src \<and> 0 \<le> n - 1
            \<and> lines d = context_lines (split_lines src) (n - 1) n (column err))"
  using loadDiagnostic_Some [OF assms(1)] assms(2)
  by (auto split: option.splits if_splits)

text \<open>
  Claim C6. For an error with a 1-based line number and column, the diagnostic has at
  most three entries in ascending order of \<open>lineIndex\<close>; the entry at the error's
  zero-based line has a start and a length that are not negative, every other entry is a
  neighbour carrying the sentinel span; no entry precedes the error line when that is the
  first line, and none follows it when it is the last line of the file that was read.
\<close>

theorem loadDiagnostic_lines_window:
  assumes "fst (loadDiagnostic (Some ctx) (Some err) fp) = Some d"
      and "line err = Some n" and "1 \<le> n" and "column err = Some col" and "1 \<le> col"
  shows "length (lines d) \<le> 3
       \<and> sorted_wrt (<) (map lineIndex (lines d))
       \<and> (\<forall>l\<in>set (lines d).
            if lineIndex l = n - 1
            then (\<exists>s. errorCharStart l = Some s \<and> 0 \<le> s) \<and> 0 \<le> errorLength l
            else sentinel_span l \<and> (lineIndex l = n - 2 \<or> lineIndex l = n))
       \<and> (n = 1 \<longrightarrow> (\<forall>l\<in>set (lines d). n - 1 \<le> lineIndex l))
       \<and> (\<forall>path src. absFilePath d = Some path \<and> readFileSync ctx path = Some src
             \<and> n = int (length (split_lines src))
             \<longrightarrow> (\<forall>l\<in>set (lines d). lineIndex l \<le> n - 1))"
proof -
  from assms(1) obtain c' where "loadDiagnostic (Some ctx) (Some err) fp = (Some d, c')"
    by (cases "loadDiagnostic (Some ctx) (Some err) fp") simp
  from loadDiagnostic_lines_cases [OF this assms(2)]
  consider (none) "lines d = []"
    | (some) path src where "absFilePath d = Some path" "readFileSync ctx path = Some src"
        "lines d = context_lines (split_lines src) (n - 1) n (Some col)"
    using assms(4) by auto
  then show ?thesis
  proof cases
    case none
    then show ?thesis by simp
  next
    case some
    define srcLines where "srcLines = split_lines src"
    define E where "E = error_entry srcLines (n - 1) n (Some col)"
    define P where "P = context_entry srcLines (n - 1 - 1) (n - 1)"
    define N where "N = context_entry srcLines (n - 1 + 1) (n + 1)"
    have l: "lines d = (if n - 1 > 0 then [P] else []) @ [E]
                       @ (if n - 1 + 1 < int (length srcLines) then [N] else [])"
      by (simp add: some(3) context_lines_shape srcLines_def E_def P_def N_def)
    have e: "lineIndex E = n - 1" by (simp add: E_def error_entry_frame)
    from assms(5) error_entry_nonneg [of col srcLines "n - 1" n]
    have en: "(\<exists>s. errorCharStart E = Some s \<and> 0 \<le> s) \<and> 0 \<le> errorLength E"
      by (auto simp: E_def)
    have p: "lineIndex P = n - 2" "sentinel_span P"
      by (simp_all add: P_def context_entry_simps)
    have n: "lineIndex N = n" "sentinel_span N"
      by (simp_all add: N_def context_entry_simps)
    have 1: "length (lines d) \<le> 3" by (simp add: l)
    have 2: "sorted_wrt (<) (map lineIndex (lines d))" by (simp add: l e p n)
    have 3: "\<forall>l\<in>set (lines d).
            if lineIndex l = n - 1
            then (\<exists>s. errorCharStart l = Some s \<and> 0 \<le> s) \<and> 0 \<le> errorLength l
            else sentinel_span l \<and> (lineIndex l = n - 2 \<or> lineIndex l = n)"
      using e en p n by (auto simp: l)
    have 4: "n = 1 \<longrightarrow> (\<forall>l\<in>set (lines d). n - 1 \<le> lineIndex l)"
      using e n by (auto simp: l)
    have 5: "\<forall>path src. absFilePath d = Some path \<and> readFileSync ctx path = Some src
             \<and> n = int (length (split_lines src))
             \<longrightarrow> (\<forall>l\<in>set (lines d). lineIndex l \<le> n - 1)"
      using e p some(1,2) by (auto simp: l srcLines_def)
    from 1 2 3 4 5 show ?thesis by blast
  qed
qed

lemma loadDiagnostic_example_value:
  "fst (loadDiagnostic (Some example_ctx) (Some example_error) (Some ''/proj/src/a.scss''))
     = Some example_diagnostic"
  by code_simp

text \<open>
  Claim C6 on the example run, and the entries for an error on the first and on the last
  line of the same file.
\<close>

theorem loadDiagnostic_lines_window_witness:
  "fst (loadDiagnostic (Some example_ctx) (Some example_error) (Some ''/proj/src/a.scss''))
     = Some example_diagnostic
   \<and> line example_error = Some 2 \<and> (1::int) \<le> 2
   \<and> column example_error = Some 10 \<and> (1::int) \<le> 10
   \<and> map lineIndex (lines example_diagnostic) = [0, 1, 2]
   \<and> length (lines example_diagnostic) \<le> 3
   \<and> sorted_wrt (<) (map lineIndex (lines example_diagnostic))
   \<and> list_all (\<lambda>l. if lineIndex l = 2 - 1
                     then (\<exists>s. errorCharStart l = Some s \<and> 0 \<le> s) \<and> 0 \<le> errorLength l
                     else sentinel_span l \<and> (lineIndex l = 2 - 2 \<or> lineIndex l = 2))
        (lines example_diagnostic)
   \<and> map_option (\<lambda>d. map (\<lambda>l. (lineIndex l, errorCharStart l, errorLength l)) (lines d))
        (fst (loadDiagnostic (Some example_ctx)
               (Some (example_error\<lparr>line := Some 1, column := Some 1\<rparr>))
               (Some ''/proj/src/a.scss'')))
       = Some [(0, Some 0, 1), (1, Some (-1), -1)]
   \<and> map_option (\<lambda>d. map (\<lambda>l. (lineIndex l, errorCharStart l, errorLength l)) (lines d))
        (fst (loadDiagnostic (Some example_ctx)
               (Some (example_error\<lparr>line := Some 3, column := Some 1\<rparr>))
               (Some ''/proj/src/a.scss'')))
       = Some [(1, Some (-1), -1), (2, Some 0, 1)]"
proof -
  have 1: "fst (loadDiagnostic (Some example_ctx) (Some example_error)
                 (Some ''/proj/src/a.scss'')) = Some example_diagnostic"
    by (rule loadDiagnostic_example_value)
  have 2: "line example_error = Some 2" and 4: "column example_error = Some 10"
    by (simp_all add: example_error_def)
  have 3: "(1::int) \<le> 2" and 5: "(1::int) \<le> 10" by simp_all
  have 6: "map lineIndex (lines example_diagnostic) = [0, 1, 2]"
    by (simp add: example_diagnostic_def)
  have 7: "map_option (\<lambda>d. map (\<lambda>l. (lineIndex l, errorCharStart l, errorLength l)) (lines d))
        (fst (loadDiagnostic (Some example_ctx)
               (Some (example_error\<lparr>line := Some 1, column := Some 1\<rparr>))
               (Some ''/proj/src/a.scss'')))
       = Some [(0, Some 0, 1), (1, Some (-1), -1)]"
    by code_simp
  have 8: "map_option (\<lambda>d. map (\<lambda>l. (lineIndex l, errorCharStart l, errorLength l)) (lines d))
        (fst (loadDiagnostic (Some example_ctx)
               (Some (example_error\<lparr>line := Some 3, column := Some 1\<rparr>))
               (Some ''/proj/src/a.scss'')))
       = Some [(1, Some (-1), -1), (2, Some 0, 1)]"
    by code_simp
  note w = loadDiagnostic_lines_window [OF 1 2 3 4 5]
  from 1 2 3 4 5 6 7 8 w show ?thesis unfolding list_all_iff by blast
qed

lemma split_lines_acc_nonempty: "split_lines_acc cur s \<noteq> []"
  by (induction cur s rule: split_lines_acc.induct) auto

lemma split_lines_nonempty: "1 \<le> int (length (split_lines s))"
  using split_lines_acc_nonempty [of "[]" s]
  by (cases "split_lines_acc [] s") (simp_all add: split_lines_def)

text \<open>
  Claim C10. When the file has been read, the line index is not negative and the file has
  no line at that index, the entry for the error line has the empty text, and with a
  column greater than 0 its span starts at the column minus one, with length 1. The
  entry before it is the only other one.
\<close>

theorem loadDiagnostic_missing_line:
  assumes "fst (loadDiagnostic (Some ctx) (Some err) fp) = Some d"
      and "absFilePath d = Some path" and "readFileSync ctx path = Some src"
      and "line err = Some n" and "0 \<le> n - 1"
      and "at_index (split_lines src) (n - 1) = None"
      and "column err = Some col" and "0 < col"
  shows "lines d =
           [\<lparr>lineIndex = n - 2, lineNumber = n - 1,
             text_line = at_index (split_lines src) (n - 2),
             errorCharStart = Some (-1), errorLength = -1\<rparr>,
            \<lparr>lineIndex = n - 1, lineNumber = n, text_line = Some [],
             errorCharStart = Some (col - 1), errorLength = 1\<rparr>]"
proof -
  from assms(1) obtain c' where r: "loadDiagnostic (Some ctx) (Some err) fp = (Some d, c')"
    by (cases "loadDiagnostic (Some ctx) (Some err) fp") simp
  define srcLines where "srcLines = split_lines src"
  from assms(5,6) have big: "int (length srcLines) \<le> n - 1"
    by (simp add: at_index_def srcLines_def split: if_splits)
  with split_lines_nonempty [of src] have pos: "0 < n - 1"
    unfolding srcLines_def by linarith
  from loadDiagnostic_Some [OF r] assms(2)
  have ep: "effective_path err fp = Some path" by simp
  from loadDiagnostic_Some [OF r] assms(3,4,5,7)
  have l: "lines d = context_lines srcLines (n - 1) n (Some col)"
    by (simp add: srcLines_def ep)
  have "error_entry srcLines (n - 1) n (Some col) =
          \<lparr>lineIndex = n - 1, lineNumber = n, text_line = Some [],
           errorCharStart = Some (col - 1), errorLength = 1\<rparr>"
    unfolding error_entry_def
    using assms(6,8) by (subst find_span_empty_text [of _ col]) (simp_all add: srcLines_def)
  with big pos show ?thesis
    by (simp add: l context_lines_shape context_entry_def srcLines_def [symmetric])
qed

text \<open>Claim C10 on the example file, for an error reported at line 7, column 4.\<close>

theorem loadDiagnostic_missing_line_witness:
  "fst (loadDiagnostic (Some example_ctx) (Some (example_error\<lparr>line := Some 7, column := Some 4\<rparr>))
         (Some ''/proj/src/a.scss''))
     = Some (example_diagnostic
         \<lparr>lineNumber_diag := Some 7, columnNumber := Some 4,
          lines := [\<lparr>lineIndex = 5, lineNumber = 6, text_line = None,
                     errorCharStart = Some (-1), errorLength = -1\<rparr>,
                    \<lparr>lineIndex = 6, lineNumber = 7, text_line = Some [],
                     errorCharStart = Some 3, errorLength = 1\<rparr>]\<rparr>)
   \<and> readFileSync example_ctx ''/proj/src/a.scss'' = Some example_source
   \<and> (0::int) \<le> 7 - 1 \<and> at_index (split_lines example_source) (7 - 1) = None
   \<and> (0::int) < 4"
proof -
  define d where "d = example_diagnostic
         \<lparr>lineNumber_diag := Some 7, columnNumber := Some 4,
          lines := [\<lparr>lineIndex = 5, lineNumber = 6, text_line = None,
                     errorCharStart = Some (-1), errorLength = -1\<rparr>,
                    \<lparr>lineIndex = 6, lineNumber = 7, text_line = Some [],
                     errorCharStart = Some 3, errorLength = 1\<rparr>]\<rparr>"
  have 1: "fst (loadDiagnostic (Some example_ctx)
      (Some (example_error\<lparr>line := Some 7, column := Some 4\<rparr>)) (Some ''/proj/src/a.scss''))
      = Some d"
    unfolding d_def by code_simp
  have 2: "absFilePath d = Some ''/proj/src/a.scss''"
    by (simp add: d_def example_diagnostic_def)
  have 3: "readFileSync example_ctx ''/proj/src/a.scss'' = Some example_source"
    by (simp add: example_ctx_def)
  have 4: "line (example_error\<lparr>line := Some 7, column := Some 4\<rparr>) = Some 7"
    and 7: "column (example_error\<lparr>line := Some 7, column := Some 4\<rparr>) = Some 4"
    by simp_all
  have 5: "(0::int) \<le> 7 - 1" and 8: "(0::int) < 4" by simp_all
  have 6: "at_index (split_lines example_source) (7 - 1) = None"
    by (simp add: split_lines_example at_index_def)
  note w = loadDiagnostic_missing_line [OF 1 2 3 4 5 6 7 8]
  from w 1 3 5 6 8 show ?thesis by (simp add: d_def)
qed

text \<open>
  Claim C5. \<open>loadDiagnostic\<close> returns \<open>null\<close> exactly when the error or the context is
  absent, and then leaves the context as it was; in every other case it returns a
  diagnostic and the context's collection grows by that one diagnostic at its end,
  whatever the file path and whatever the read of the file does.
\<close>

theorem loadDiagnostic_returns:
  "(fst (loadDiagnostic context sassError fp) = None \<longleftrightarrow> sassError = None \<or> context = None)
   \<and> (fst (loadDiagnostic context sassError fp) = None \<longrightarrow>
        snd (loadDiagnostic context sassError fp) = context)
   \<and> (\<forall>err ctx. sassError = Some err \<and> context = Some ctx \<longrightarrow>
        (\<exists>d. loadDiagnostic context sassError fp =
               (Some d, Some (ctx\<lparr>diagnostics := diagnostics ctx @ [d]\<rparr>))))"
proof (cases sassError)
  case None
  then show ?thesis by (simp add: loadDiagnostic_def)
next
  case e: (Some err)
  show ?thesis
  proof (cases "context")
    case None
    with e show ?thesis by (simp add: loadDiagnostic_def)
  next
    case c: (Some ctx)
    define d where "d = (case effective_path err fp of
                           None \<Rightarrow> \<lparr>level = ''error'', type = ''css'', language = ''scss'',
                                     header = ''sass error'', code = formatCode (status err),
                                     relFilePath = None, absFilePath = None,
                                     messageText = formatMessage (message err),
                                     lineNumber_diag = None, columnNumber = None, lines = []\<rparr>
                         | Some path \<Rightarrow> with_file_context ctx err path
                                    \<lparr>level = ''error'', type = ''css'', language = ''scss'',
                                     header = ''sass error'', code = formatCode (status err),
                                     relFilePath = None, absFilePath = None,
                                     messageText = formatMessage (message err),
                                     lineNumber_diag = None, columnNumber = None, lines = []\<rparr>)"
    have "loadDiagnostic context sassError fp =
            (Some d, Some (ctx\<lparr>diagnostics := diagnostics ctx @ [d]\<rparr>))"
      by (simp add: e c loadDiagnostic_def Let_def d_def effective_path_def)
    with e c show ?thesis by simp
  qed
qed

text \<open>
  Claim C5 on the example context: with no file path, with a path whose read throws, and
  with the context or the error absent.
\<close>

theorem loadDiagnostic_returns_witness:
  "fst (loadDiagnostic (Some example_ctx) (Some example_error) None)
     = Some example_plain_diagnostic
   \<and> map_option diagnostics (snd (loadDiagnostic (Some example_ctx) (Some example_error) None))
     = Some (diagnostics example_ctx @ [example_plain_diagnostic])
   \<and> readFileSync example_ctx ''/gone.sass'' = None
   \<and> map_option lines (fst (loadDiagnostic (Some example_ctx) (Some example_error)
        (Some ''/gone.sass''))) = Some []
   \<and> map_option (\<lambda>c. length (diagnostics c))
        (snd (loadDiagnostic (Some example_ctx) (Some example_error) (Some ''/gone.sass'')))
     = Some (length (diagnostics example_ctx) + 1)
   \<and> loadDiagnostic None (Some example_error) (Some ''/gone.sass'') = (None, None)
   \<and> loadDiagnostic (Some example_ctx) None (Some ''/gone.sass'') = (None, Some example_ctx)"
proof -
  have 1: "fst (loadDiagnostic (Some example_ctx) (Some example_error) None)
     = Some example_plain_diagnostic"
    by code_simp
  have 2: "readFileSync example_ctx ''/gone.sass'' = None"
    by (simp add: example_ctx_def)
  have 3: "map_option lines (fst (loadDiagnostic (Some example_ctx) (Some example_error)
        (Some ''/gone.sass''))) = Some []"
    by code_simp
  from loadDiagnostic_returns [of "Some example_ctx" "Some example_error" None]
  obtain d where a: "loadDiagnostic (Some example_ctx) (Some example_error) None =
      (Some d, Some (example_ctx\<lparr>diagnostics := diagnostics example_ctx @ [d]\<rparr>))"
    by blast
  from loadDiagnostic_returns [of "Some example_ctx" "Some example_error" "Some ''/gone.sass''"]
  obtain e where b: "loadDiagnostic (Some example_ctx) (Some example_error) (Some ''/gone.sass'') =
      (Some e, Some (example_ctx\<lparr>diagnostics := diagnostics example_ctx @ [e]\<rparr>))"
    by blast
  from loadDiagnostic_returns [of None "Some example_error" "Some ''/gone.sass''"]
  have c: "loadDiagnostic None (Some example_error) (Some ''/gone.sass'') = (None, None)"
    by (simp add: prod_eq_iff)
  from loadDiagnostic_returns [of "Some example_ctx" None "Some ''/gone.sass''"]
  have d: "loadDiagnostic (Some example_ctx) None (Some ''/gone.sass'') = (None, Some example_ctx)"
    by (simp add: prod_eq_iff)
  from 1 a have "d = example_plain_diagnostic" by simp
  with 1 2 3 a b c d show ?thesis by simp
qed

subsection \<open>Render options\<close>

lemma cell_at_append: "cell_at (h @ [c]) a = (if a = length h then Some c else cell_at h a)"
  by (auto simp: cell_at_def nth_append)

lemma cell_at_update:
  "cell_at (h[a := c]) b = (if b = a \<and> a < length h then Some c else cell_at h b)"
  by (auto simp: cell_at_def)

lemma cell_at_set_prop:
  "cell_at (set_prop h a k v) b =
     (if b = a then (case cell_at h a of Some (Object m) \<Rightarrow> Some (Object (m(k \<mapsto> v))) | x \<Rightarrow> x)
      else cell_at h b)"
  by (auto simp: set_prop_def cell_at_update split: option.splits cell.splits)
     (auto simp: cell_at_def)

lemma cell_at_delete_prop:
  "cell_at (delete_prop h a k) b =
     (if b = a then (case cell_at h a of Some (Object m) \<Rightarrow> Some (Object (m(k := None))) | x \<Rightarrow> x)
      else cell_at h b)"
  by (auto simp: delete_prop_def cell_at_update split: option.splits cell.splits)
     (auto simp: cell_at_def)

lemma cell_at_array_push:
  "cell_at (array_push h (Ref a) xs) b =
     (if b = a then (case cell_at h a of Some (Array ys) \<Rightarrow> Some (Array (ys @ xs)) | x \<Rightarrow> x)
      else cell_at h b)"
  by (auto simp: array_push_def cell_at_update split: option.splits cell.splits)
     (auto simp: cell_at_def)

lemma length_set_prop [simp]: "length (set_prop h a k v) = length h"
  by (simp add: set_prop_def split: option.splits cell.splits)

lemma length_delete_prop [simp]: "length (delete_prop h a k) = length h"
  by (simp add: delete_prop_def split: option.splits cell.splits)

lemma length_array_push [simp]: "length (array_push h v xs) = length h"
  by (simp add: array_push_def split: option.splits cell.splits val.splits)

lemma frame_refl: "frame r K h h"
  by (simp add: frame_def)

lemma frame_trans: "frame r K h h' \<Longrightarrow> frame r K h' h'' \<Longrightarrow> frame r K h h''"
  by (auto simp: frame_def)

lemma frame_mono: "frame r K h h' \<Longrightarrow> K \<subseteq> K' \<Longrightarrow> frame r K' h h'"
  by (auto simp: frame_def)

lemma frame_length: "frame r K h g \<Longrightarrow> r < length h \<Longrightarrow> r < length g"
  by (simp add: frame_def)

lemma frame_alloc: "frame r K h g \<Longrightarrow> r < length h \<Longrightarrow> frame r K h (g @ [c])"
  by (auto simp: frame_def cell_at_append props_def is_object_def)

lemma frame_set_prop: "frame r K h g \<Longrightarrow> k \<in> K \<Longrightarrow> frame r K h (set_prop g r k v)"
  by (auto simp: frame_def cell_at_set_prop props_def is_object_def
      split: option.splits cell.splits)

lemma frame_delete_prop: "frame r K h g \<Longrightarrow> k \<in> K \<Longrightarrow> frame r K h (delete_prop g r k)"
  by (auto simp: frame_def cell_at_delete_prop props_def is_object_def
      split: option.splits cell.splits)

lemma frame_array_push:
  "frame r K h g \<Longrightarrow> r < length h \<Longrightarrow> length h \<le> a \<Longrightarrow> frame r K h (array_push g (Ref a) xs)"
  by (auto simp: frame_def cell_at_array_push props_def is_object_def
      split: option.splits cell.splits)

lemma props_set_prop:
  "is_object h r \<Longrightarrow> props (set_prop h r k v) r = (props h r)(k \<mapsto> v)"
  by (auto simp: props_def cell_at_set_prop is_object_def)

lemma props_delete_prop: "props (delete_prop h r k) r k = None"
  by (auto simp: props_def cell_at_delete_prop split: option.splits cell.splits)

lemma is_object_append: "is_object h r \<Longrightarrow> is_object (h @ [c]) r"
  by (auto simp: is_object_def cell_at_append cell_at_def nth_append split: if_splits)

lemma props_append: "r < length h \<Longrightarrow> props (h @ [c]) r = props h r"
  by (simp add: props_def cell_at_append)

lemma get_prop_set_prop_same:
  "get_prop (set_prop h r k v) r k = (if is_object h r then v else Undefined)"
  by (auto simp: get_prop_def props_def cell_at_set_prop is_object_def
      split: option.splits cell.splits)

lemma copy_options_result:
  "copy_options h opts sourceText fileName =
     (length h,
      h @ [Object ((props h opts)(''data'' \<mapsto> Str sourceText,
                                  ''indentedSyntax'' \<mapsto> Boolean (test_sass fileName)))])"
  by (simp add: copy_options_def alloc_def set_prop_def cell_at_def)

lemma set_includePaths_cases:
  assumes "r < length h" and "set_includePaths P ctx h opts r fn = (e, h')"
  obtains h3 where "frame r {''includePaths''} h h3" and "e \<noteq> None" and "h' = h3"
  | h3 mapped where "frame r {''includePaths''} h h3" and "e = None"
      and "h' = set_prop (h3 @ [Array mapped]) r ''includePaths'' (Ref (length h3))"
proof -
  define c where "c = (if isArray h (get_prop h opts ''includePaths'')
             then Array (slice_from (elems h (get_prop h opts ''includePaths'')) 0)
             else Array [])"
  define h1 where "h1 = h @ [c]"
  define h2 where "h2 = set_prop h1 r ''includePaths'' (Ref (length h))"
  define h3 where "h3 = array_push h2 (get_prop h2 r ''includePaths'') [Str (dirname P fn)]"
  have f1: "frame r {''includePaths''} h h1"
    unfolding h1_def using assms(1) by (intro frame_alloc frame_refl)
  have f2: "frame r {''includePaths''} h h2"
    unfolding h2_def using f1 by (rule frame_set_prop) simp
  have "get_prop h2 r ''includePaths'' = Ref (length h) \<or> get_prop h2 r ''includePaths'' = Undefined"
    by (simp add: h2_def get_prop_set_prop_same)
  then have f: "frame r {''includePaths''} h h3"
  proof
    assume "get_prop h2 r ''includePaths'' = Ref (length h)"
    with assms(1) f2 show ?thesis unfolding h3_def by (simp add: frame_array_push)
  next
    assume "get_prop h2 r ''includePaths'' = Undefined"
    with f2 show ?thesis unfolding h3_def by (simp add: array_push_def)
  qed
  have s: "set_includePaths P ctx h opts r fn =
     (case resolve_includePaths P (rootDir ctx) (elems h3 (get_prop h3 r ''includePaths'')) of
        Inl e \<Rightarrow> (Some e, h3)
      | Inr mapped \<Rightarrow>
          (None, set_prop (h3 @ [Array mapped]) r ''includePaths'' (Ref (length h3))))"
    by (cases "isArray h (get_prop h opts ''includePaths'')")
      (simp_all add: set_includePaths_def alloc_def Let_def c_def h1_def h2_def h3_def
        split: sum.splits)
  show ?thesis
  proof (cases "resolve_includePaths P (rootDir ctx) (elems h3 (get_prop h3 r ''includePaths''))")
    case (Inl x)
    with s assms(2) f that(1) show ?thesis by simp
  next
    case (Inr mapped)
    with s assms(2) f that(2) show ?thesis by simp
  qed
qed

lemma set_includePaths_frame:
  assumes "r < length h" and "set_includePaths P ctx h opts r fn = (e, h')"
  shows "frame r {''includePaths''} h h'"
  using assms
proof (cases rule: set_includePaths_cases)
  case (1 h3)
  then show ?thesis by simp
next
  case (2 h3 mapped)
  from 2(1) assms(1) have "r < length h3" by (rule frame_length)
  with 2(1) assms(1) have "frame r {''includePaths''} h (h3 @ [Array mapped])"
    by (intro frame_alloc)
  then show ?thesis unfolding 2(3) by (rule frame_set_prop) simp
qed

lemma set_includePaths_present:
  assumes "r < length h" and "is_object h r"
      and "set_includePaths P ctx h opts r fn = (None, h')"
  shows "\<exists>a xs. props h' r ''includePaths'' = Some (Ref a) \<and> r < a \<and> a < length h'
           \<and> cell_at h' a = Some (Array xs)"
  using assms(1,3)
proof (cases rule: set_includePaths_cases)
  case (1 h3)
  then show ?thesis by simp
next
  case (2 h3 mapped)
  from 2(1) assms(1) have l: "r < length h3" by (rule frame_length)
  from 2(1) assms(2) have "is_object h3 r" by (simp add: frame_def)
  then have "is_object (h3 @ [Array mapped]) r" by (rule is_object_append)
  then have "props h' r ''includePaths'' = Some (Ref (length h3))"
    unfolding 2(3) by (simp add: props_set_prop)
  moreover from l have "cell_at h' (length h3) = Some (Array mapped)"
    unfolding 2(3) by (simp add: cell_at_set_prop cell_at_append)
  ultimately show ?thesis using l unfolding 2(3) by auto
qed

lemma inject_globals_frame:
  assumes "r < length h" and "inject_globals P ctx h opts r = (e, h')"
  shows "frame r {''data''} h h'"
proof -
  define c where "c = (if isArray h (get_prop h opts ''injectGlobalPaths'')
             then Array (slice_from (elems h (get_prop h opts ''injectGlobalPaths'')) 0)
             else Array [])"
  define h1 where "h1 = h @ [c]"
  have f1: "frame r {''data''} h h1"
    unfolding h1_def using assms(1) by (intro frame_alloc frame_refl)
  have s: "inject_globals P ctx h opts r =
     (if length (elems h1 (Ref (length h))) > 0 then
        (case import_statements P ctx (get_prop h1 r ''indentedSyntax'')
                (elems h1 (Ref (length h))) of
           Inl e \<Rightarrow> (Some e, h1)
         | Inr stmts \<Rightarrow>
             (None, set_prop h1 r ''data''
                      (prepend_text (join stmts []) (get_prop h1 r ''data''))))
      else (None, h1))"
    by (cases "isArray h (get_prop h opts ''injectGlobalPaths'')")
      (simp_all add: inject_globals_def alloc_def Let_def c_def h1_def split: sum.splits)
  from f1 have f2: "frame r {''data''} h (set_prop h1 r ''data'' v)" for v
    by (rule frame_set_prop) simp
  from assms(2) f1 f2 show ?thesis
    unfolding s by (auto split: if_splits sum.splits)
qed

lemma install_importer_frame:
  assumes "r < length h"
  shows "frame r {''importer''} h (install_importer ctx h r)"
proof (cases "case sys ctx of Some s \<Rightarrow> has_resolveModuleId s | None \<Rightarrow> False")
  case False
  then show ?thesis by (simp add: install_importer_def frame_refl)
next
  case True
  define h1 where "h1 = h @ [Array []]"
  define h2 where "h2 = (case get_prop h1 r ''importer'' of
                     Function f \<Rightarrow> array_push h1 (Ref (length h)) [Function f]
                   | v \<Rightarrow> if isArray h1 v then array_push h1 (Ref (length h)) (elems h1 v)
                         else h1)"
  define h3 where "h3 = array_push h2 (Ref (length h)) [Function ModuleImporter]"
  have s: "install_importer ctx h r = set_prop h3 r ''importer'' (Ref (length h))"
    using True
    unfolding install_importer_def alloc_def Let_def h1_def h2_def h3_def prod.case
    by simp
  have f1: "frame r {''importer''} h h1"
    unfolding h1_def using assms by (intro frame_alloc frame_refl)
  have f2: "frame r {''importer''} h h2"
    unfolding h2_def using assms f1
    by (auto simp: frame_array_push split: val.splits)
  have f3: "frame r {''importer''} h h3"
    unfolding h3_def using assms f2 by (simp add: frame_array_push)
  show ?thesis unfolding s using f3 by (rule frame_set_prop) simp
qed

lemma set_silenceDeprecations_cases:
  assumes "set_silenceDeprecations h r = (e, h')"
  obtains "e \<noteq> None" and "h' = h"
  | xs where "e = None" and "spread_or_empty h (get_prop h r ''silenceDeprecations'') = Inr xs"
      and "h' = set_prop (h @ [Array (xs @ [Str ''legacy-js-api''])]) r
                  ''silenceDeprecations'' (Ref (length h))"
  using assms
  by (cases "spread_or_empty h (get_prop h r ''silenceDeprecations'')")
    (auto simp: set_silenceDeprecations_def alloc_def)

lemma set_silenceDeprecations_frame:
  assumes "r < length h" and "set_silenceDeprecations h r = (e, h')"
  shows "frame r {''silenceDeprecations''} h h'"
  using assms(2)
proof (cases rule: set_silenceDeprecations_cases)
  case 1
  then show ?thesis by (simp add: frame_refl)
next
  case (2 xs)
  from assms(1) have "frame r {''silenceDeprecations''} h (h @ [Array (xs @ [Str ''legacy-js-api''])])"
    by (intro frame_alloc frame_refl)
  then show ?thesis unfolding 2(3) by (rule frame_set_prop) simp
qed

lemma getRenderOptions_cases:
  assumes "getRenderOptions P h opts src fn ctx = (res, h')"
  obtains e where "res = Inl e"
      and "set_includePaths P ctx (copied h opts src fn) opts (length h) fn = (Some e, h')"
  | e h2 where "res = Inl e"
      and "set_includePaths P ctx (copied h opts src fn) opts (length h) fn = (None, h2)"
      and "inject_globals P ctx h2 opts (length h) = (Some e, h')"
  | h2 h3 e where "res = Inl e"
      and "set_includePaths P ctx (copied h opts src fn) opts (length h) fn = (None, h2)"
      and "inject_globals P ctx h2 opts (length h) = (None, h3)"
      and "set_silenceDeprecations
             (install_importer ctx
               (delete_prop (delete_prop h3 (length h) ''injectGlobalPaths'') (length h) ''file'')
               (length h)) (length h) = (Some e, h')"
  | h2 h3 where "res = Inr (length h)"
      and "set_includePaths P ctx (copied h opts src fn) opts (length h) fn = (None, h2)"
      and "inject_globals P ctx h2 opts (length h) = (None, h3)"
      and "set_silenceDeprecations
             (install_importer ctx
               (delete_prop (delete_prop h3 (length h) ''injectGlobalPaths'') (length h) ''file'')
               (length h)) (length h) = (None, h')"
  using assms
  unfolding getRenderOptions_def copy_options_result copied_def [symmetric] Let_def prod.case
  by (auto split: prod.splits option.splits)

lemma tail_frame:
  assumes "r < length h3"
      and "set_silenceDeprecations
             (install_importer ctx
               (delete_prop (delete_prop h3 r ''injectGlobalPaths'') r ''file'') r) r = (e, h')"
  shows "frame r {''injectGlobalPaths'', ''file'', ''importer'', ''silenceDeprecations''} h3 h'"
proof -
  let ?K = "{''injectGlobalPaths'', ''file'', ''importer'', ''silenceDeprecations''}"
  define h4 where "h4 = delete_prop h3 r ''injectGlobalPaths''"
  define h5 where "h5 = delete_prop h4 r ''file''"
  define h6 where "h6 = install_importer ctx h5 r"
  have f4: "frame r ?K h3 h4" unfolding h4_def by (intro frame_delete_prop frame_refl) simp
  have f5: "frame r ?K h3 h5" unfolding h5_def using f4 by (rule frame_delete_prop) simp
  from assms(1) have l5: "r < length h5" by (simp add: h5_def h4_def)
  from install_importer_frame [OF l5] have "frame r ?K h5 h6"
    unfolding h6_def by (rule frame_mono) simp
  with f5 have f6: "frame r ?K h3 h6" by (rule frame_trans)
  from l5 have l6: "r < length h6"
    using install_importer_frame [OF l5, of ctx] by (simp add: h6_def frame_def)
  from assms(2) have "set_silenceDeprecations h6 r = (e, h')"
    by (simp add: h6_def h5_def h4_def)
  from set_silenceDeprecations_frame [OF l6 this] have "frame r ?K h6 h'"
    by (rule frame_mono) simp
  with f6 show ?thesis by (rule frame_trans)
qed

lemma getRenderOptions_frame:
  assumes "getRenderOptions P h opts src fn ctx = (res, h')"
  shows "frame (length h) TOUCHED (copied h opts src fn) h'"
proof -
  let ?r = "length h"
  let ?h1 = "copied h opts src fn"
  have l1: "?r < length ?h1" by (simp add: copied_def)
  have inc: "frame ?r TOUCHED ?h1 h2"
    if "set_includePaths P ctx ?h1 opts ?r fn = (e, h2)" for e h2
    using set_includePaths_frame [OF l1 that] by (rule frame_mono) (simp add: TOUCHED_def)
  have inj: "frame ?r TOUCHED ?h1 h3"
    if "set_includePaths P ctx ?h1 opts ?r fn = (None, h2)"
      and "inject_globals P ctx h2 opts ?r = (e, h3)" for e h2 h3
  proof -
    from inc [OF that(1)] l1 have "?r < length h2" by (rule frame_length)
    from inject_globals_frame [OF this that(2)] have "frame ?r TOUCHED h2 h3"
      by (rule frame_mono) (simp add: TOUCHED_def)
    with inc [OF that(1)] show ?thesis by (rule frame_trans)
  qed
  have fin: "frame ?r TOUCHED ?h1 h'"
    if "set_includePaths P ctx ?h1 opts ?r fn = (None, h2)"
      and "inject_globals P ctx h2 opts ?r = (None, h3)"
      and "set_silenceDeprecations
             (install_importer ctx
               (delete_prop (delete_prop h3 ?r ''injectGlobalPaths'') ?r ''file'') ?r) ?r
           = (e, h')" for e h2 h3
  proof -
    from inj [OF that(1,2)] l1 have "?r < length h3" by (rule frame_length)
    from tail_frame [OF this that(3)] have "frame ?r TOUCHED h3 h'"
      by (rule frame_mono) (simp add: TOUCHED_def)
    with inj [OF that(1,2)] show ?thesis by (rule frame_trans)
  qed
  from assms show ?thesis
    by (cases rule: getRenderOptions_cases) (auto intro: inc inj fin)
qed

lemma getRenderOptions_old_cells:
  assumes "getRenderOptions P h opts src fn ctx = (res, h')"
  shows "length h < length h'" and "a < length h \<Longrightarrow> cell_at h' a = cell_at h a"
proof -
  from getRenderOptions_frame [OF assms]
  have f: "frame (length h) TOUCHED (copied h opts src fn) h'" .
  then show "length h < length h'" by (simp add: frame_def copied_def)
  assume "a < length h"
  with f show "cell_at h' a = cell_at h a"
    by (simp add: frame_def copied_def cell_at_append)
qed

lemma strip_and_import_frame:
  assumes "r < length h3"
  shows "frame r {''injectGlobalPaths'', ''file'', ''importer''} h3 (strip_and_import ctx h3 r)"
    and "props (strip_and_import ctx h3 r) r ''injectGlobalPaths'' = None"
    and "props (strip_and_import ctx h3 r) r ''file'' = None"
proof -
  let ?K = "{''injectGlobalPaths'', ''file'', ''importer''}"
  define h4 where "h4 = delete_prop h3 r ''injectGlobalPaths''"
  define h5 where "h5 = delete_prop h4 r ''file''"
  have s: "strip_and_import ctx h3 r = install_importer ctx h5 r"
    by (simp add: strip_and_import_def h5_def h4_def)
  have f4: "frame r ?K h3 h4" unfolding h4_def by (intro frame_delete_prop frame_refl) simp
  have f5: "frame r ?K h3 h5" unfolding h5_def using f4 by (rule frame_delete_prop) simp
  from assms have l5: "r < length h5" by (simp add: h5_def h4_def)
  note f6 = install_importer_frame [OF l5, of ctx]
  from f6 have "frame r ?K h5 (install_importer ctx h5 r)" by (rule frame_mono) simp
  with f5 show "frame r ?K h3 (strip_and_import ctx h3 r)" unfolding s by (rule frame_trans)
  have "frame r {''file''} h4 h5" unfolding h5_def by (intro frame_delete_prop frame_refl) simp
  then have "props h5 r ''injectGlobalPaths'' = props h4 r ''injectGlobalPaths''"
    by (simp add: frame_def)
  then have a: "props h5 r ''injectGlobalPaths'' = None" by (simp add: h4_def props_delete_prop)
  have b: "props h5 r ''file'' = None" by (simp add: h5_def props_delete_prop)
  from f6 a show "props (strip_and_import ctx h3 r) r ''injectGlobalPaths'' = None"
    unfolding s by (simp add: frame_def)
  from f6 b show "props (strip_and_import ctx h3 r) r ''file'' = None"
    unfolding s by (simp add: frame_def)
qed

lemma getRenderOptions_success:
  assumes "getRenderOptions P h opts src fn ctx = (Inr r, h')"
  obtains h2 h3 xs where "r = length h"
    and "set_includePaths P ctx (copied h opts src fn) opts r fn = (None, h2)"
    and "inject_globals P ctx h2 opts r = (None, h3)"
    and "frame r {''includePaths'', ''data''} (copied h opts src fn) h3"
    and "spread_or_empty (strip_and_import ctx h3 r)
           (get_prop (strip_and_import ctx h3 r) r ''silenceDeprecations'') = Inr xs"
    and "h' = set_prop (strip_and_import ctx h3 r @ [Array (xs @ [Str ''legacy-js-api''])]) r
                ''silenceDeprecations'' (Ref (length (strip_and_import ctx h3 r)))"
  using assms
proof (cases rule: getRenderOptions_cases)
  case (4 h2 h3)
  let ?h1 = "copied h opts src fn"
  from 4(1) have r: "r = length h" by simp
  have l1: "r < length ?h1" by (simp add: copied_def r)
  from set_includePaths_frame [OF l1] 4(2) have "frame r {''includePaths''} ?h1 h2"
    by (simp add: r)
  then have f2: "frame r {''includePaths'', ''data''} ?h1 h2" by (rule frame_mono) simp
  from f2 l1 have l2: "r < length h2" by (rule frame_length)
  from inject_globals_frame [OF l2] 4(3) have "frame r {''data''} h2 h3" by (simp add: r)
  then have "frame r {''includePaths'', ''data''} h2 h3" by (rule frame_mono) simp
  with f2 have f3: "frame r {''includePaths'', ''data''} ?h1 h3" by (rule frame_trans)
  from 4(4) have "set_silenceDeprecations (strip_and_import ctx h3 r) r = (None, h')"
    by (simp add: strip_and_import_def r)
  then show ?thesis
  proof (cases rule: set_silenceDeprecations_cases)
    case 1
    then show ?thesis by simp
  next
    case (2 xs)
    with that [OF r _ _ f3] 4(2,3) r show ?thesis by simp
  qed
qed simp_all

lemma slice_from_0: "slice_from xs 0 = xs"
  by (simp add: slice_from_def slice_def slice_index_def)

lemma resolve_includePaths_strings:
  "list_all is_string vs \<Longrightarrow> \<exists>rs. resolve_includePaths P root vs = Inr rs"
  by (induction vs) (auto simp: is_string_def split: val.splits)

lemma import_statements_strings:
  "list_all is_string vs \<Longrightarrow> \<exists>rs. import_statements P ctx i vs = Inr rs"
  by (induction vs) (auto simp: is_string_def split: val.splits)

lemma copied_array_value:
  "(if isArray h v then alloc h (Array (slice_from (elems h v) 0)) else alloc h (Array []))
     = (length h, h @ [Array (elems h v)])"
  by (auto simp: slice_from_0 alloc_def isArray_def elems_def
      split: val.splits option.splits cell.splits)

lemma set_includePaths_returns:
  assumes "r < length h" and "is_object h r"
      and "list_all is_string (elems h (get_prop h opts ''includePaths''))"
  shows "fst (set_includePaths P ctx h opts r fn) = None"
proof -
  define ys where "ys = elems h (get_prop h opts ''includePaths'')"
  define h1 where "h1 = h @ [Array ys]"
  define h2 where "h2 = set_prop h1 r ''includePaths'' (Ref (length h))"
  define h3 where "h3 = array_push h2 (Ref (length h)) [Str (dirname P fn)]"
  from assms(2) have o1: "is_object h1 r" unfolding h1_def by (rule is_object_append)
  then have g2: "get_prop h2 r ''includePaths'' = Ref (length h)"
    by (simp add: h2_def get_prop_set_prop_same)
  from assms(1) have c2: "cell_at h2 (length h) = Some (Array ys)"
    by (simp add: h2_def h1_def cell_at_set_prop cell_at_append)
  then have c3: "cell_at h3 (length h) = Some (Array (ys @ [Str (dirname P fn)]))"
    by (simp add: h3_def cell_at_array_push)
  from assms(1) have "cell_at h3 r = cell_at h2 r"
    by (simp add: h3_def cell_at_array_push)
  then have g3: "get_prop h3 r ''includePaths'' = Ref (length h)"
    using g2 by (simp add: get_prop_def props_def)
  from c3 have e3: "elems h3 (Ref (length h)) = ys @ [Str (dirname P fn)]"
    by (simp add: elems_def)
  from assms(3) have "list_all is_string (ys @ [Str (dirname P fn)])"
    by (simp add: ys_def is_string_def)
  from resolve_includePaths_strings [OF this]
  obtain rs where rs: "resolve_includePaths P (rootDir ctx) (ys @ [Str (dirname P fn)]) = Inr rs"
    by blast
  have "set_includePaths P ctx h opts r fn =
     (case resolve_includePaths P (rootDir ctx) (elems h3 (get_prop h3 r ''includePaths'')) of
        Inl e \<Rightarrow> (Some e, h3)
      | Inr mapped \<Rightarrow>
          (None, set_prop (h3 @ [Array mapped]) r ''includePaths'' (Ref (length h3))))"
    unfolding set_includePaths_def copied_array_value Let_def prod.case
    unfolding ys_def [symmetric] h1_def [symmetric] h2_def [symmetric] g2 h3_def [symmetric]
    by (simp add: alloc_def split: sum.splits)
  then show ?thesis by (simp add: g3 e3 rs)
qed

lemma inject_globals_returns:
  assumes "list_all is_string (elems h (get_prop h opts ''injectGlobalPaths''))"
  shows "fst (inject_globals P ctx h opts r) = None"
proof -
  define ys where "ys = elems h (get_prop h opts ''injectGlobalPaths'')"
  define h1 where "h1 = h @ [Array ys]"
  have e: "elems h1 (Ref (length h)) = ys" by (simp add: h1_def elems_def cell_at_append)
  from import_statements_strings [OF assms, folded ys_def]
  obtain rs where rs: "import_statements P ctx (get_prop h1 r ''indentedSyntax'') ys = Inr rs"
    by blast
  have "inject_globals P ctx h opts r =
     (if length (elems h1 (Ref (length h))) > 0 then
        (case import_statements P ctx (get_prop h1 r ''indentedSyntax'')
                (elems h1 (Ref (length h))) of
           Inl e \<Rightarrow> (Some e, h1)
         | Inr stmts \<Rightarrow>
             (None, set_prop h1 r ''data''
                      (prepend_text (join stmts []) (get_prop h1 r ''data''))))
      else (None, h1))"
    unfolding inject_globals_def copied_array_value Let_def prod.case
    unfolding ys_def [symmetric] h1_def [symmetric]
    by simp
  then show ?thesis by (simp add: e rs)
qed

lemma old_value_same:
  assumes "\<forall>a<length h. cell_at g a = cell_at h a" and "old_value h v"
  shows "elems g v = elems h v" and "isArray g v = isArray h v"
    and "spread_or_empty g v = spread_or_empty h v"
  using assms
  by (auto simp: old_value_def elems_def isArray_def spread_or_empty_def split: val.splits)

lemma old_props_same:
  assumes "\<forall>a<length h. cell_at g a = cell_at h a" and "opts < length h"
  shows "get_prop g opts k = get_prop h opts k"
  using assms by (simp add: get_prop_def props_def)

lemma copied_facts:
  "length h < length (copied h opts src fn)"
  "is_object (copied h opts src fn) (length h)"
  "\<forall>a<length h. cell_at (copied h opts src fn) a = cell_at h a"
  "k \<noteq> ''data'' \<Longrightarrow> k \<noteq> ''indentedSyntax'' \<Longrightarrow>
     props (copied h opts src fn) (length h) k = props h opts k"
  by (simp_all add: copied_def is_object_def cell_at_append props_def)

lemma frame_old_cells:
  assumes "frame (length h) K (copied h opts src fn) g"
  shows "\<forall>a<length h. cell_at g a = cell_at h a"
  using assms copied_facts(3) [where h = h and opts = opts and src = src and fn = fn]
  by (auto simp: frame_def copied_def)

lemma isArray_old: "isArray h v \<Longrightarrow> old_value h v"
  by (auto simp: isArray_def old_value_def cell_at_def split: val.splits if_splits)

lemma getRenderOptions_returns_general:
  assumes "opts < length h"
      and "old_value h (get_prop h opts ''includePaths'')"
      and "list_all is_string (elems h (get_prop h opts ''includePaths''))"
      and "old_value h (get_prop h opts ''injectGlobalPaths'')"
      and "list_all is_string (elems h (get_prop h opts ''injectGlobalPaths''))"
      and "isArray h (get_prop h opts ''silenceDeprecations'')
           \<or> get_prop h opts ''silenceDeprecations'' = Undefined
           \<or> get_prop h opts ''silenceDeprecations'' = Null"
  shows "fst (getRenderOptions P h opts src fn ctx) = Inr (length h)"
proof -
  let ?r = "length h"
  let ?h1 = "copied h opts src fn"
  note c = copied_facts [where h = h and opts = opts and src = src and fn = fn]
  obtain e2 h2 where s2: "set_includePaths P ctx ?h1 opts ?r fn = (e2, h2)"
    by (cases "set_includePaths P ctx ?h1 opts ?r fn")
  from c(3) assms(1,2,3)
  have "list_all is_string (elems ?h1 (get_prop ?h1 opts ''includePaths''))"
    by (simp add: old_props_same old_value_same)
  from set_includePaths_returns [OF c(1,2) this, of P ctx fn] s2 have e2: "e2 = None" by simp
  from set_includePaths_frame [OF c(1) s2] have f2: "frame ?r {''includePaths''} ?h1 h2" .
  from f2 c(1) have l2: "?r < length h2" by (rule frame_length)
  note o2 = frame_old_cells [OF f2]
  obtain e3 h3 where s3: "inject_globals P ctx h2 opts ?r = (e3, h3)"
    by (cases "inject_globals P ctx h2 opts ?r")
  from o2 assms(1,4,5)
  have "list_all is_string (elems h2 (get_prop h2 opts ''injectGlobalPaths''))"
    by (simp add: old_props_same old_value_same)
  from inject_globals_returns [OF this, of P ctx ?r] s3 have e3: "e3 = None" by simp
  from inject_globals_frame [OF l2 s3] have "frame ?r {''data''} h2 h3" .
  then have "frame ?r {''includePaths'', ''data''} h2 h3" by (rule frame_mono) simp
  moreover from f2 have "frame ?r {''includePaths'', ''data''} ?h1 h2" by (rule frame_mono) simp
  ultimately have f3: "frame ?r {''includePaths'', ''data''} ?h1 h3" by (rule frame_trans [rotated])
  from f3 c(1) have l3: "?r < length h3" by (rule frame_length)
  define h6 where "h6 = strip_and_import ctx h3 ?r"
  from strip_and_import_frame(1) [OF l3, of ctx]
  have "frame ?r {''includePaths'', ''data'', ''injectGlobalPaths'', ''file'', ''importer''} h3 h6"
    unfolding h6_def by (rule frame_mono) simp
  moreover from f3
  have "frame ?r {''includePaths'', ''data'', ''injectGlobalPaths'', ''file'', ''importer''} ?h1 h3"
    by (rule frame_mono) simp
  ultimately
  have f6: "frame ?r {''includePaths'', ''data'', ''injectGlobalPaths'', ''file'', ''importer''}
              ?h1 h6"
    by (rule frame_trans [rotated])
  then have "props h6 ?r ''silenceDeprecations'' = props ?h1 ?r ''silenceDeprecations''"
    by (simp add: frame_def)
  with c(4) [where k = "''silenceDeprecations''"]
  have g6: "get_prop h6 ?r ''silenceDeprecations'' = get_prop h opts ''silenceDeprecations''"
    by (simp add: get_prop_def)
  from assms(6) have "old_value h (get_prop h opts ''silenceDeprecations'')"
    using isArray_old [of h "get_prop h opts ''silenceDeprecations''"]
    by (auto simp: old_value_def)
  from old_value_same(3) [OF frame_old_cells [OF f6] this]
  have "spread_or_empty h6 (get_prop h6 ?r ''silenceDeprecations'')
          = spread_or_empty h (get_prop h opts ''silenceDeprecations'')"
    by (simp add: g6)
  also from assms(6) have "\<dots> = Inr (elems h (get_prop h opts ''silenceDeprecations''))"
    by (auto simp: spread_or_empty_def isArray_def elems_def
        split: val.splits option.splits cell.splits)
  finally have "fst (set_silenceDeprecations h6 ?r) = None"
    by (simp add: set_silenceDeprecations_def alloc_def)
  then show ?thesis
    unfolding getRenderOptions_def copy_options_result copied_def [symmetric] Let_def prod.case
      s2 e2 s3 e3
    by (auto simp: h6_def strip_and_import_def split: prod.splits option.splits)
qed

lemma getRenderOptions_fields:
  assumes "getRenderOptions P h opts src fn ctx = (Inr r, h')"
  shows "props h' r ''injectGlobalPaths'' = None \<and> props h' r ''file'' = None
    \<and> (\<exists>a xs. props h' r ''includePaths'' = Some (Ref a) \<and> length h \<le> a
          \<and> cell_at h' a = Some (Array xs))"
  using assms
proof (cases rule: getRenderOptions_success)
  case (1 h2 h3 xs)
  let ?h1 = "copied h opts src fn"
  let ?h6 = "strip_and_import ctx h3 r"
  note c = copied_facts [where h = h and opts = opts and src = src and fn = fn]
  from c(1) have l1: "r < length ?h1" by (simp add: 1(1))
  from c(2) have o1: "is_object ?h1 r" by (simp add: 1(1))
  from set_includePaths_present [OF l1 o1 1(2)]
  obtain a ys where a: "props h2 r ''includePaths'' = Some (Ref a)" "r < a" "a < length h2"
      "cell_at h2 a = Some (Array ys)"
    by blast
  from set_includePaths_frame [OF l1 1(2)] l1 have l2: "r < length h2" by (rule frame_length)
  from inject_globals_frame [OF l2 1(3)] have f3: "frame r {''data''} h2 h3" .
  from f3 l2 have l3: "r < length h3" by (rule frame_length)
  note s = strip_and_import_frame [OF l3, of ctx]
  from s(1) l3 have l6: "r < length ?h6" by (rule frame_length)
  have "frame r {''silenceDeprecations''} ?h6 (?h6 @ [Array (xs @ [Str ''legacy-js-api''])])"
    using l6 by (intro frame_alloc frame_refl)
  then have f7: "frame r {''silenceDeprecations''} ?h6 h'"
    unfolding 1(6) by (rule frame_set_prop) simp
  from f3 a have a3: "props h3 r ''includePaths'' = Some (Ref a)" "cell_at h3 a = Some (Array ys)"
    by (simp_all add: frame_def)
  from f3 a(3) have "a < length h3" by (simp add: frame_def)
  with s(1) a3 a(2) have a6: "props ?h6 r ''includePaths'' = Some (Ref a)"
      "cell_at ?h6 a = Some (Array ys)" "a < length ?h6"
    by (simp_all add: frame_def)
  with f7 a(2) have "props h' r ''includePaths'' = Some (Ref a)" "cell_at h' a = Some (Array ys)"
    by (simp_all add: frame_def)
  moreover from f7 s(2,3) have "props h' r ''injectGlobalPaths'' = None" "props h' r ''file'' = None"
    by (simp_all add: frame_def)
  moreover from a(2) have "length h \<le> a" by (simp add: 1(1))
  ultimately show ?thesis by blast
qed

lemma getRenderOptions_silence:
  assumes "getRenderOptions P h opts src fn ctx = (Inr r, h')"
      and "isArray h (get_prop h opts ''silenceDeprecations'')
           \<or> get_prop h opts ''silenceDeprecations'' = Undefined
           \<or> get_prop h opts ''silenceDeprecations'' = Null"
  shows "\<exists>a. get_prop h' r ''silenceDeprecations'' = Ref a \<and> length h \<le> a
           \<and> cell_at h' a = Some (Array (elems h (get_prop h opts ''silenceDeprecations'')
                                           @ [Str ''legacy-js-api'']))"
  using assms(1)
proof (cases rule: getRenderOptions_success)
  case (1 h2 h3 xs)
  let ?h1 = "copied h opts src fn"
  let ?h6 = "strip_and_import ctx h3 r"
  let ?K = "{''includePaths'', ''data'', ''injectGlobalPaths'', ''file'', ''importer''}"
  note c = copied_facts [where h = h and opts = opts and src = src and fn = fn]
  from c(1) have l1: "r < length ?h1" by (simp add: 1(1))
  from c(2) have o1: "is_object ?h1 r" by (simp add: 1(1))
  from 1(4) l1 have l3: "r < length h3" by (rule frame_length)
  from strip_and_import_frame(1) [OF l3, of ctx] have "frame r ?K h3 ?h6"
    by (rule frame_mono) simp
  moreover from 1(4) have "frame r ?K ?h1 h3" by (rule frame_mono) simp
  ultimately have f6: "frame r ?K ?h1 ?h6" by (rule frame_trans [rotated])
  from f6 l1 have l6: "r < length ?h6" by (rule frame_length)
  from f6 o1 have o6: "is_object ?h6 r" by (simp add: frame_def)
  from f6 have "props ?h6 r ''silenceDeprecations'' = props ?h1 r ''silenceDeprecations''"
    by (simp add: frame_def)
  with c(4) [where k = "''silenceDeprecations''"]
  have g6: "get_prop ?h6 r ''silenceDeprecations'' = get_prop h opts ''silenceDeprecations''"
    by (simp add: get_prop_def 1(1))
  from assms(2) have "old_value h (get_prop h opts ''silenceDeprecations'')"
    using isArray_old [of h "get_prop h opts ''silenceDeprecations''"]
    by (auto simp: old_value_def)
  from old_value_same(3) [OF frame_old_cells [OF f6 [unfolded 1(1)]] this]
  have "spread_or_empty ?h6 (get_prop ?h6 r ''silenceDeprecations'')
          = spread_or_empty h (get_prop h opts ''silenceDeprecations'')"
    by (simp add: g6 [unfolded 1(1)] 1(1))
  also from assms(2) have "\<dots> = Inr (elems h (get_prop h opts ''silenceDeprecations''))"
    by (auto simp: spread_or_empty_def isArray_def elems_def
        split: val.splits option.splits cell.splits)
  finally have xs: "xs = elems h (get_prop h opts ''silenceDeprecations'')"
    using 1(5) by simp
  from o6 have "is_object (?h6 @ [Array (xs @ [Str ''legacy-js-api''])]) r"
    by (rule is_object_append)
  then have "get_prop h' r ''silenceDeprecations'' = Ref (length ?h6)"
    unfolding 1(6) by (simp add: get_prop_set_prop_same)
  moreover from l6 have "cell_at h' (length ?h6) = Some (Array (xs @ [Str ''legacy-js-api'']))"
    unfolding 1(6) by (simp add: cell_at_set_prop cell_at_append)
  moreover from l6 have "length h \<le> length ?h6" by (simp add: 1(1))
  ultimately show ?thesis by (simp add: xs)
qed

lemmas example_heap_eval =
  example_heap_def get_prop_def props_def cell_at_def old_value_def elems_def is_string_def
  isArray_def

lemma example_result_returns: "fst example_result = Inr 4"
proof -
  have "fst example_result = Inr (length example_heap)"
    unfolding example_result_def
    by (rule getRenderOptions_returns_general) (simp_all add: example_heap_eval)
  then show ?thesis by (simp add: example_heap_def)
qed

lemmas render_eval =
  getRenderOptions_def copy_options_result set_includePaths_def inject_globals_def
  install_importer_def set_silenceDeprecations_def spread_or_empty_def alloc_def Let_def
  get_prop_def props_def cell_at_def isArray_def elems_def array_push_def set_prop_def
  delete_prop_def example_path_def example_ctx_def slice_from_def slice_def slice_index_def
  nth_append startsWith_def

text \<open>
  Claim C2, as amended. The options object that \<open>getRenderOptions\<close> returns has neither
  an \<open>injectGlobalPaths\<close> nor a \<open>file\<close> property; \<open>includePaths\<close> is not removed: the
  object always has it, and it refers to an array allocated during the call.
\<close>

theorem getRenderOptions_removes_extension_fields:
  assumes "fst (getRenderOptions P h opts sourceText fileName context) = Inr r"
  shows "props (snd (getRenderOptions P h opts sourceText fileName context)) r
           ''injectGlobalPaths'' = None
       \<and> props (snd (getRenderOptions P h opts sourceText fileName context)) r ''file'' = None
       \<and> (\<exists>a xs. props (snd (getRenderOptions P h opts sourceText fileName context)) r
                    ''includePaths'' = Some (Ref a)
                \<and> length h \<le> a
                \<and> cell_at (snd (getRenderOptions P h opts sourceText fileName context)) a
                    = Some (Array xs))"
proof -
  obtain h' where "getRenderOptions P h opts sourceText fileName context = (Inr r, h')"
    using assms by (cases "getRenderOptions P h opts sourceText fileName context") simp
  from getRenderOptions_fields [OF this] this show ?thesis by simp
qed

text \<open>
  The amended claim C2 on the example options, which come with \<open>injectGlobalPaths\<close> and
  \<open>file\<close>.
\<close>

theorem getRenderOptions_removes_extension_fields_witness:
  "fst example_result = Inr 4
   \<and> props example_heap 0 ''injectGlobalPaths'' = Some (Ref 2)
   \<and> props example_heap 0 ''file'' = Some (Str ''ignored.scss'')
   \<and> props (snd example_result) 4 ''injectGlobalPaths'' = None
   \<and> props (snd example_result) 4 ''file'' = None
   \<and> (\<exists>a xs. props (snd example_result) 4 ''includePaths'' = Some (Ref a)
         \<and> length example_heap \<le> a
         \<and> cell_at (snd example_result) a = Some (Array xs))"
proof -
  note r = example_result_returns
  have p: "props example_heap 0 ''injectGlobalPaths'' = Some (Ref 2)"
      "props example_heap 0 ''file'' = Some (Str ''ignored.scss'')"
    by (simp_all add: example_heap_eval)
  from getRenderOptions_removes_extension_fields [OF r [unfolded example_result_def]] r p
  show ?thesis unfolding example_result_def by blast
qed

text \<open>
  Claim C2 as stated counts \<open>includePaths\<close> among the fields that are absent from the
  result. From an empty options object the result has \<open>includePaths\<close>, an array holding
  the directory of the file.
\<close>

theorem getRenderOptions_includePaths_counterexample:
  "fst example_bare_result = Inr 1
   \<and> props [Object Map.empty] 0 ''includePaths'' = None
   \<and> props (snd example_bare_result) 1 ''includePaths'' = Some (Ref 3)
   \<and> props (snd example_bare_result) 1 ''includePaths'' \<noteq> None
   \<and> elems (snd example_bare_result) (Ref 3) = [Str ''/proj/src'']"
  unfolding example_bare_result_def by (simp add: render_eval)

text \<open>
  Claim C8. In the options that \<open>getRenderOptions\<close> returns, \<open>silenceDeprecations\<close> is a
  new array: the entries of the user's list, or none when the user gave no list, followed
  by the one entry \<open>legacy-js-api\<close>. Nothing is tested before the entry is appended.
\<close>

theorem getRenderOptions_appends_legacy_js_api:
  assumes "fst (getRenderOptions P h opts sourceText fileName context) = Inr r"
      and "isArray h (get_prop h opts ''silenceDeprecations'')
           \<or> get_prop h opts ''silenceDeprecations'' = Undefined
           \<or> get_prop h opts ''silenceDeprecations'' = Null"
  shows "\<exists>a. get_prop (snd (getRenderOptions P h opts sourceText fileName context)) r
                ''silenceDeprecations'' = Ref a
             \<and> length h \<le> a
             \<and> cell_at (snd (getRenderOptions P h opts sourceText fileName context)) a
                 = Some (Array (elems h (get_prop h opts ''silenceDeprecations'')
                                @ [Str ''legacy-js-api'']))"
proof -
  obtain h' where "getRenderOptions P h opts sourceText fileName context = (Inr r, h')"
    using assms(1) by (cases "getRenderOptions P h opts sourceText fileName context") simp
  from getRenderOptions_silence [OF this assms(2)] this show ?thesis by simp
qed

text \<open>
  Claim C8 on the example options, whose list already holds \<open>legacy-js-api\<close>: the
  result holds it twice.
\<close>

theorem getRenderOptions_appends_legacy_js_api_witness:
  "fst example_result = Inr 4
   \<and> isArray example_heap (get_prop example_heap 0 ''silenceDeprecations'')
   \<and> elems example_heap (get_prop example_heap 0 ''silenceDeprecations'')
       = [Str ''legacy-js-api'']
   \<and> (\<exists>a. get_prop (snd example_result) 4 ''silenceDeprecations'' = Ref a
         \<and> length example_heap \<le> a
         \<and> cell_at (snd example_result) a
             = Some (Array [Str ''legacy-js-api'', Str ''legacy-js-api'']))"
proof -
  note r = example_result_returns
  have a: "isArray example_heap (get_prop example_heap 0 ''silenceDeprecations'')"
    by (simp add: example_heap_eval)
  have e: "elems example_heap (get_prop example_heap 0 ''silenceDeprecations'')
       = [Str ''legacy-js-api'']"
    by (simp add: example_heap_eval)
  from getRenderOptions_appends_legacy_js_api
    [OF r [unfolded example_result_def] disjI1 [OF a]] r a e
  show ?thesis unfolding example_result_def by simp
qed

text \<open>
  Claim C7. After any call of \<open>getRenderOptions\<close>, whether it returns or throws, every
  cell of the caller's store is what it was: the user's options object has the same
  properties, and the arrays that its \<open>includePaths\<close>, \<open>injectGlobalPaths\<close>,
  \<open>silenceDeprecations\<close> and \<open>importer\<close> refer to have the same elements. All writes go
  to cells allocated during the call.
\<close>

theorem getRenderOptions_keeps_user_options:
  "take (length h) (snd (getRenderOptions P h opts sourceText fileName context)) = h
   \<and> (\<forall>a<length h. cell_at (snd (getRenderOptions P h opts sourceText fileName context)) a
                      = cell_at h a)
   \<and> (opts < length h \<longrightarrow>
        props (snd (getRenderOptions P h opts sourceText fileName context)) opts = props h opts)"
proof -
  obtain res h' where r: "getRenderOptions P h opts sourceText fileName context = (res, h')"
    by (cases "getRenderOptions P h opts sourceText fileName context")
  note o = getRenderOptions_old_cells [OF r]
  have "take (length h) h' = h"
  proof (rule nth_equalityI)
    from o(1) show "length (take (length h) h') = length h" by simp
  next
    fix i assume "i < length (take (length h) h')"
    with o(1) have i: "i < length h" by simp
    with o(2) [of i] o(1) show "take (length h) h' ! i = h ! i"
      by (simp add: cell_at_def)
  qed
  with o(2) show ?thesis by (simp add: r props_def)
qed

text \<open>Claim C7 on the example options.\<close>

theorem getRenderOptions_keeps_user_options_witness:
  "(0::nat) < length example_heap
   \<and> fst example_result = Inr 4
   \<and> take (length example_heap) (snd example_result) = example_heap
   \<and> props (snd example_result) 0 = props example_heap 0
   \<and> props example_heap 0 ''includePaths'' = Some (Ref 1)
   \<and> cell_at (snd example_result) 1 = Some (Array [Str ''styles'', Str ''/abs/lib''])"
proof -
  have l: "(0::nat) < length example_heap" "(1::nat) < length example_heap"
    by (simp_all add: example_heap_def)
  have c: "cell_at example_heap 1 = Some (Array [Str ''styles'', Str ''/abs/lib''])"
    by (simp add: example_heap_def cell_at_def)
  have p: "props example_heap 0 ''includePaths'' = Some (Ref 1)"
    by (simp add: example_heap_eval)
  from getRenderOptions_keeps_user_options
    [of example_heap example_path 0 "''a { }''" "''/proj/src/a.scss''" example_sys_ctx]
    l c p example_result_returns
  show ?thesis unfolding example_result_def by simp
qed

end
